theory Spec2Isabelle
  imports Main "HOL-Library.Char_ord" "HOL-Library.List_Lexorder"
begin

section \<open>Strings\<close>

text \<open>
  The plugin is TypeScript; its strings are modelled as \<^typ>\<open>string\<close>, one \<^typ>\<open>char\<close> per
  code unit below 256. White space is what \<open>\s\<close> and \<open>trim\<close> strip among those code units:
  tab, line feed, vertical tab, form feed, carriage return, space and the no-break space.
  \<open>toUpperChar\<close> and \<open>toLowerChar\<close> map the ASCII letters and carry every other character
  through unchanged; they serve the table keys and file names. Role canonicalization,
  whose result depends on the case mapping of every letter, is modelled on UTF-16 code
  units below.
\<close>

definition is_space :: "char \<Rightarrow> bool" where
  "is_space c = (c \<in> set [CHR 0x09, CHR 0x0A, CHR 0x0B, CHR 0x0C, CHR 0x0D, CHR '' '', CHR 0xA0])"

definition toUpperChar :: "char \<Rightarrow> char" where
  "toUpperChar c =
     (let n = (of_char c :: nat) in if 97 \<le> n \<and> n \<le> 122 then char_of (n - 32) else c)"

definition toLowerChar :: "char \<Rightarrow> char" where
  "toLowerChar c =
     (let n = (of_char c :: nat) in if 65 \<le> n \<and> n \<le> 90 then char_of (n + 32) else c)"

definition toLowerCase :: "string \<Rightarrow> string" where
  "toLowerCase s = map toLowerChar s"

definition trimStart :: "string \<Rightarrow> string" where
  "trimStart s = dropWhile is_space s"

definition trimEnd :: "string \<Rightarrow> string" where
  "trimEnd s = rev (dropWhile is_space (rev s))"

definition trim :: "string \<Rightarrow> string" where
  "trim s = trimEnd (trimStart s)"

text \<open>\<open>s.split(d)\<close> for a one-character separator: \<open>"".split(",")\<close> is \<open>[""]\<close>.\<close>

fun split_on :: "'a \<Rightarrow> 'a list \<Rightarrow> 'a list list" where
  "split_on d [] = [[]]"
| "split_on d (c # cs) =
     (if c = d then [] # split_on d cs
      else (case split_on d cs of w # ws \<Rightarrow> (c # w) # ws | [] \<Rightarrow> [[c]]))"

text \<open>\<open>ws.join(sep)\<close>.\<close>

fun join :: "'a list \<Rightarrow> 'a list list \<Rightarrow> 'a list" where
  "join sep [] = []"
| "join sep [w] = w"
| "join sep (w # v # ws) = w @ sep @ join sep (v # ws)"

section \<open>Field normalizer\<close>

subsection \<open>Cross-reference sanitization\<close>

text \<open>
  \<open>cleanForWikilink(text)\<close> is \<open>text.replace(/[\[\]|#^]/g, '').trim()\<close>: every bracket,
  pipe, hash and caret is removed, then the ends are trimmed.
\<close>

definition wikilink_breaking :: "char set" where
  "wikilink_breaking = {CHR ''['', CHR '']'', CHR ''|'', CHR ''#'', CHR ''^''}"

definition cleanForWikilink :: "string \<Rightarrow> string" where
  "cleanForWikilink text = trim (filter (\<lambda>c. c \<notin> wikilink_breaking) text)"

subsection \<open>Role split and canonicalization\<close>

text \<open>
  \<open>processIssueData\<close> turns the role string of a credit into role names with
  \<open>credit.role.split(',').map(r => r.trim().split(' ').map(w => w.charAt(0).toUpperCase()
  + w.slice(1)).join(' '))\<close> and skips the empty ones (\<open>if (!role) return\<close>).
  \<open>String.prototype.toUpperCase\<close> can turn one code unit into two and can leave the code
  units below 256, so here a string is a list of UTF-16 code units, each a number.
  \<open>trim\<close> strips the white space and line terminators of ECMAScript.
\<close>

type_synonym code_unit = nat

definition is_white_space :: "code_unit \<Rightarrow> bool" where
  "is_white_space u =
     (u \<in> {0x09, 0x0A, 0x0B, 0x0C, 0x0D, 0x20, 0xA0, 0x1680, 0x2028, 0x2029, 0x202F, 0x205F, 0x3000, 0xFEFF}
      \<or> (0x2000 \<le> u \<and> u \<le> 0x200A))"


text \<open>
  \<open>c.toUpperCase()\<close> for a string \<open>c\<close> of one code unit. Below 256 the Unicode mapping is:
  the letters a to z and the letters U+00E0 to U+00FE other than the division sign move
  down by 32; the micro sign becomes U+039C; the sharp s becomes SS; y with diaeresis
  becomes U+0178; every other code unit is its own upper case, and so are U+039C and
  U+0178. The mapping of the remaining code units is the parameter \<open>other\<close>.
\<close>

definition toUpperCase :: "(code_unit \<Rightarrow> code_unit list) \<Rightarrow> code_unit \<Rightarrow> code_unit list" where
  "toUpperCase other u =
     (if 0x61 \<le> u \<and> u \<le> 0x7A then [u - 0x20]
      else if u = 0xB5 then [0x39C]
      else if u = 0xDF then [0x53, 0x53]
      else if (0xE0 \<le> u \<and> u \<le> 0xF6) \<or> (0xF8 \<le> u \<and> u \<le> 0xFE) then [u - 0x20]
      else if u = 0xFF then [0x178]
      else if u < 0x100 \<or> u = 0x39C \<or> u = 0x178 then [u]
      else other u)"




text \<open>
  Auxiliary notions for the proofs about \<open>canonicalizeSegment\<close>: the code units whose upper
  case is tabulated above; \<open>capw other b t\<close>, which upper-cases the first code unit of every
  space-separated word of \<open>t\<close> (\<open>b\<close> says whether a word starts here); and the strings that
  \<open>trim\<close> leaves alone.
\<close>

definition tabulated :: "code_unit \<Rightarrow> bool" where
  "tabulated u = (u < 0x100 \<or> u = 0x39C \<or> u = 0x178)"

fun capw :: "(code_unit \<Rightarrow> code_unit list) \<Rightarrow> bool \<Rightarrow> code_unit list \<Rightarrow> code_unit list" where
  "capw other b [] = []"
| "capw other b (c # cs) =
     (if c = 0x20 then c # capw other True cs
      else (if b then toUpperCase other c else [c]) @ capw other False cs)"




subsection \<open>Role-to-ontology-key mapping\<close>

text \<open>
  \<open>mapRoleToOntologyKey\<close> looks the lower-cased, trimmed role up in an object literal:
  \<open>return mapping[roleLower] || 'contributedTo'\<close>. Indexing a plain object finds its own
  properties first and then the members it inherits from \<open>Object.prototype\<close>, so a lookup has
  three outcomes. An inherited member is a function or an object, never a string.
\<close>

datatype 'a js_lookup = Own 'a | Inherited string | Absent

definition object_prototype_members :: "string list" where
  "object_prototype_members =
     [''constructor'', ''__defineGetter__'', ''__defineSetter__'', ''hasOwnProperty'',
      ''__lookupGetter__'', ''__lookupSetter__'', ''isPrototypeOf'', ''propertyIsEnumerable'',
      ''toString'', ''valueOf'', ''__proto__'', ''toLocaleString'']"

definition js_index :: "(string \<times> 'a) list \<Rightarrow> string \<Rightarrow> 'a js_lookup" where
  "js_index obj k =
     (case map_of obj k of
        Some v \<Rightarrow> Own v
      | None \<Rightarrow> if k \<in> set object_prototype_members then Inherited k else Absent)"

text \<open>What the function returns: a key of the table (or the fallback), or the inherited member.\<close>

datatype key_result = KeyString string | PrototypeMember string

definition mapping :: "(string \<times> string) list" where
  "mapping =
     [(''writer'', ''writtenBy''), (''script'', ''writtenBy''), (''editor'', ''editedBy''),
      (''penciler'', ''penciler''), (''penciller'', ''penciler''), (''inker'', ''inker''),
      (''colorist'', ''colorist''), (''letterer'', ''letterer''),
      (''cover artist'', ''coverArtist''), (''cover'', ''coverArtist''),
      (''artist'', ''contributedTo''), (''creator'', ''creator'')]"

definition mapRoleToOntologyKey :: "string \<Rightarrow> key_result" where
  "mapRoleToOntologyKey role =
     (let roleLower = trim (toLowerCase role) in
      case js_index mapping roleLower of
        Own k \<Rightarrow> if k \<noteq> [] then KeyString k else KeyString ''contributedTo''
      | Inherited m \<Rightarrow> PrototypeMember m
      | Absent \<Rightarrow> KeyString ''contributedTo'')"


subsection \<open>Date decomposition\<close>

text \<open>
  \<open>parseCreatorDate\<close> returns a \<open>DateTimeInfo\<close> whose fields are all optional, or \<open>null\<close>.
\<close>


record DateTimeInfo =
  dt_value :: "string option"
  dt_year :: "int option"
  dt_month :: "int option"
  dt_day :: "int option"

text \<open>
  \<open>new Date(s)\<close> is the platform's parser. A valid date is modelled by the UTC year, month
  (1 to 12) and day that \<open>getUTCFullYear\<close>, \<open>getUTCMonth() + 1\<close> and \<open>getUTCDate\<close> read from it,
  an invalid one by \<open>None\<close>. The two date-only forms of the ECMAScript date-time string
  format that the function tests for, \<open>YYYY\<close> and \<open>YYYY-MM\<close>, are parsed as the standard says
  (UTC, month 01 to 12, missing fields 1); what the parser makes of any other string is the
  parameter \<open>other\<close>.
\<close>

type_synonym utc_date = "int \<times> int \<times> int"

definition is_digit :: "char \<Rightarrow> bool" where
  "is_digit c = (c \<in> set ''0123456789'')"

definition digit_val :: "char \<Rightarrow> int" where
  "digit_val c = int (of_char c) - 48"

definition digits_val :: "string \<Rightarrow> int" where
  "digits_val s = foldl (\<lambda>n c. 10 * n + digit_val c) 0 s"

text \<open>The tests \<open>/^\\d{4}$/\<close> and \<open>/^\\d{4}-\\d{2}$/\<close>.\<close>

definition matches_year :: "string \<Rightarrow> bool" where
  "matches_year s = (length s = 4 \<and> list_all is_digit s)"

definition matches_year_month :: "string \<Rightarrow> bool" where
  "matches_year_month s =
     (length s = 7 \<and> list_all is_digit (take 4 s) \<and> s ! 4 = CHR ''-'' \<and> list_all is_digit (drop 5 s))"

definition js_Date :: "(string \<Rightarrow> utc_date option) \<Rightarrow> string \<Rightarrow> utc_date option" where
  "js_Date other s =
     (if matches_year s then Some (digits_val s, 1, 1)
      else if matches_year_month s then
        (let m = digits_val (drop 5 s) in
         if 1 \<le> m \<and> m \<le> 12 then Some (digits_val (take 4 s), m, 1) else None)
      else other s)"

definition parseCreatorDate :: "(string \<Rightarrow> utc_date option) \<Rightarrow> string option \<Rightarrow> DateTimeInfo option" where
  "parseCreatorDate other dateString =
     (case dateString of
        None \<Rightarrow> None
      | Some s \<Rightarrow>
          if s = [] then None
          else (case js_Date other s of
                  Some (year, month, day) \<Rightarrow>
                    if year < 100 then Some \<lparr>dt_value = Some s, dt_year = None, dt_month = None, dt_day = None\<rparr>
                    else if matches_year s then
                      Some \<lparr>dt_value = Some s, dt_year = Some year, dt_month = None, dt_day = None\<rparr>
                    else if matches_year_month s then
                      Some \<lparr>dt_value = Some s, dt_year = Some year, dt_month = Some month, dt_day = None\<rparr>
                    else Some \<lparr>dt_value = Some s, dt_year = Some year, dt_month = Some month, dt_day = Some day\<rparr>
                | None \<Rightarrow> Some \<lparr>dt_value = Some s, dt_year = None, dt_month = None, dt_day = None\<rparr>))"

text \<open>A parser that accepts the two date-only forms and nothing else, for concrete runs.\<close>

definition no_other_formats :: "string \<Rightarrow> utc_date option" where
  "no_other_formats s = None"


section \<open>Rate-limited fetch client\<close>

text \<open>
  The client keeps \<open>lastRequestTime\<close> and \<open>rateLimitDelay\<close> (milliseconds). Time is explicit:
  a call starts at \<open>now\<close> (the first \<open>Date.now()\<close>), a timer set for \<open>d\<close> milliseconds fires
  exactly \<open>d\<close> later, and the second \<open>Date.now()\<close> is read when the wait ends. The abort
  signal is the time at which it fires (\<open>None\<close>: no signal, or one that never fires).
  \<open>requestUrl\<close> either rejects or resolves with a status and a JSON body.
\<close>

record ComicVineClient =
  lastRequestTime :: int
  rateLimitDelay :: int

datatype 'j network = Rejected string | Responded int 'j

datatype fetch_error = RequestAborted | ApiRequestFailed string | BadStatus int | Transport string

datatype 'j fetch_result = Resolved 'j | Thrown fetch_error

record 'j fetch_run =
  client_after :: ComicVineClient
  dispatched_at :: "int option"
  settled_at :: int
  settled :: "'j fetch_result"

text \<open>
  \<open>rateLimitedFetch\<close> of the current source (part_002, lines 131-143). The parameter
  \<open>abortSignal\<close> is accepted and never read.
\<close>

definition rateLimitedFetch :: "ComicVineClient \<Rightarrow> int \<Rightarrow> int option \<Rightarrow> 'j network \<Rightarrow> 'j fetch_run" where
  "rateLimitedFetch c now abortSignal net =
     (let timeSinceLastRequest = now - lastRequestTime c;
          wake = (if timeSinceLastRequest < rateLimitDelay c
                  then now + (rateLimitDelay c - timeSinceLastRequest) else now)
      in \<lparr>client_after = c\<lparr>lastRequestTime := wake\<rparr>,
          dispatched_at = Some wake,
          settled_at = wake,
          settled = (case net of
                       Rejected e \<Rightarrow> Thrown (Transport e)
                     | Responded status json \<Rightarrow>
                         if status \<noteq> 200 then Thrown (BadStatus status) else Resolved json)\<rparr>)"

text \<open>
  \<open>rateLimitedFetch\<close> of the earlier revision in main.ts (``Phase 7'', lines 131-166): the wait
  is rejected with \<open>Error('Request aborted')\<close> when the signal fires during it, the signal is
  checked again after the wait, and a failed request is rethrown as \<open>API request failed\<close>.
\<close>

definition rateLimitedFetch_phase7 :: "ComicVineClient \<Rightarrow> int \<Rightarrow> int option \<Rightarrow> 'j network \<Rightarrow> 'j fetch_run" where
  "rateLimitedFetch_phase7 c now abortSignal net =
     (let timeSinceLastRequest = now - lastRequestTime c;
          wake = (if timeSinceLastRequest < rateLimitDelay c
                  then now + (rateLimitDelay c - timeSinceLastRequest) else now)
      in case abortSignal of
           Some a \<Rightarrow>
             if now \<le> a \<and> a < wake then
               \<lparr>client_after = c, dispatched_at = None, settled_at = a, settled = Thrown RequestAborted\<rparr>
             else if a \<le> wake then
               \<lparr>client_after = c, dispatched_at = None, settled_at = wake, settled = Thrown RequestAborted\<rparr>
             else
               \<lparr>client_after = c\<lparr>lastRequestTime := wake\<rparr>, dispatched_at = Some wake, settled_at = wake,
                settled = (case net of Rejected e \<Rightarrow> Thrown (ApiRequestFailed e) | Responded status json \<Rightarrow> Resolved json)\<rparr>
         | None \<Rightarrow>
             \<lparr>client_after = c\<lparr>lastRequestTime := wake\<rparr>, dispatched_at = Some wake, settled_at = wake,
              settled = (case net of Rejected e \<Rightarrow> Thrown (ApiRequestFailed e) | Responded status json \<Rightarrow> Resolved json)\<rparr>)"

text \<open>
  Calls that overlap. Nothing serializes the calls of one client: a call that starts while
  another is still waiting reads the same \<open>lastRequestTime\<close>. The state is the list of wake-up
  times of the waiting calls (in the order they fire), the client, and the dispatch times so
  far. \<open>fire_due\<close> runs the timers that are due, \<open>start_call\<close> starts a call at \<open>now\<close> after the
  timers due by then, and \<open>dispatch_times\<close> lists when the requests of calls started at the
  given times go out.
\<close>

fun fire_due :: "(int \<Rightarrow> bool) \<Rightarrow> int list \<Rightarrow> ComicVineClient \<Rightarrow> int list \<Rightarrow> int list \<times> ComicVineClient \<times> int list" where
  "fire_due due [] c ds = ([], c, ds)"
| "fire_due due (w # ws) c ds =
     (if due w then fire_due due ws (c\<lparr>lastRequestTime := w\<rparr>) (ds @ [w]) else (w # ws, c, ds))"

definition start_call :: "int \<Rightarrow> int list \<times> ComicVineClient \<times> int list \<Rightarrow> int list \<times> ComicVineClient \<times> int list" where
  "start_call now st =
     (case st of (ws, c, ds) \<Rightarrow>
        (case fire_due (\<lambda>w. w \<le> now) ws c ds of (ws1, c1, ds1) \<Rightarrow>
           (let timeSinceLastRequest = now - lastRequestTime c1 in
            if timeSinceLastRequest < rateLimitDelay c1
            then (ws1 @ [now + (rateLimitDelay c1 - timeSinceLastRequest)], c1, ds1)
            else (ws1, c1\<lparr>lastRequestTime := now\<rparr>, ds1 @ [now]))))"

definition dispatch_times :: "ComicVineClient \<Rightarrow> int list \<Rightarrow> int list" where
  "dispatch_times c starts =
     (case foldl (\<lambda>st now. start_call now st) ([], c, []) starts of
        (ws, c1, ds) \<Rightarrow> snd (snd (fire_due (\<lambda>w. True) ws c1 ds)))"


section \<open>Properties of the field normalizer\<close>


lemma set_trimStart: "set (trimStart s) \<subseteq> set s"
  unfolding trimStart_def by (rule set_dropWhileD [THEN subsetI]) assumption

lemma set_trimEnd: "set (trimEnd s) \<subseteq> set s"
proof -
  have "set (dropWhile is_space (rev s)) \<subseteq> set (rev s)"
    by (rule subsetI) (rule set_dropWhileD)
  then show ?thesis by (simp add: trimEnd_def)
qed

lemma set_trim: "set (trim s) \<subseteq> set s"
  unfolding trim_def using set_trimEnd set_trimStart by blast

text \<open>
  C2. For every display name, the result of \<open>cleanForWikilink\<close> contains no bracket, pipe,
  caret or hash character.
\<close>

theorem cleanForWikilink_strips:
  "set (cleanForWikilink n) \<inter> {CHR ''['', CHR '']'', CHR ''|'', CHR ''#'', CHR ''^''} = {}"
proof -
  have "set (cleanForWikilink n) \<subseteq> set (filter (\<lambda>c. c \<notin> wikilink_breaking) n)"
    unfolding cleanForWikilink_def by (rule set_trim)
  then have "set (cleanForWikilink n) \<inter> wikilink_breaking = {}"
    by auto
  then show ?thesis by (simp add: wikilink_breaking_def)
qed


subsection \<open>Role canonicalization is idempotent\<close>

lemma toUpperCase_tabulated:
  assumes "tabulated u"
  shows "toUpperCase other u \<noteq> []"
    and "\<forall>x \<in> set (toUpperCase other u). tabulated x"
    and "toUpperCase other (hd (toUpperCase other u)) = [hd (toUpperCase other u)]"
    and "\<forall>x \<in> set (toUpperCase other u). x = 0x20 \<longrightarrow> u = 0x20"
    and "\<forall>x \<in> set (toUpperCase other u). x = 0x2C \<longrightarrow> u = 0x2C"
    and "\<forall>x \<in> set (toUpperCase other u). is_white_space x \<longrightarrow> is_white_space u"
  using assms
  by (auto simp: toUpperCase_def tabulated_def is_white_space_def split: if_splits)


lemma split_on_nonempty: "split_on d s \<noteq> []"
  by (induction s) (auto split: list.splits)


lemma split_on_no_sep: "d \<notin> set s \<Longrightarrow> split_on d s = [s]"
  by (induction s) auto







lemma capw_tabulated: "\<forall>u \<in> set t. tabulated u \<Longrightarrow> \<forall>u \<in> set (capw other b t). tabulated u"
  by (induction t arbitrary: b) (auto dest: toUpperCase_tabulated(2))






















subsection \<open>Role-to-ontology-key mapping\<close>

lemma mapRoleToOntologyKey_table:
  "map_of mapping (trim (toLowerCase role)) = Some k \<Longrightarrow> mapRoleToOntologyKey role = KeyString k"
  by (auto simp: mapRoleToOntologyKey_def js_index_def mapping_def split: if_splits)

lemma mapRoleToOntologyKey_fallback:
  "map_of mapping (trim (toLowerCase role)) = None \<Longrightarrow>
   trim (toLowerCase role) \<notin> set object_prototype_members \<Longrightarrow>
   mapRoleToOntologyKey role = KeyString ''contributedTo''"
  by (simp add: mapRoleToOntologyKey_def js_index_def)

text \<open>
  C7. The mapping is meant to send every role that is not in the table to \<open>contributedTo\<close>.
  For the roles \<open>constructor\<close> and \<open>__proto__\<close> (in any letter case), which are not in the table,
  the lookup finds the member inherited from \<open>Object.prototype\<close> and the function returns it
  instead of a key.
\<close>

theorem mapRoleToOntologyKey_inherited:
  "mapRoleToOntologyKey ''constructor'' = PrototypeMember ''constructor''
   \<and> mapRoleToOntologyKey ''Constructor'' = PrototypeMember ''constructor''
   \<and> mapRoleToOntologyKey ''__proto__'' = PrototypeMember ''__proto__''"
  by code_simp

subsection \<open>Date decomposition\<close>

lemma ym_not_y: "matches_year_month s \<Longrightarrow> \<not> matches_year s"
  by (simp add: matches_year_def matches_year_month_def)

text \<open>
  C1, as the code has it. A year-month string with a month from 01 to 12 and a year of at
  least 100 yields value, year and month and no day; a bare four-digit year of at least 100
  yields value and year only; a string that does not parse yields the value only; a bare year
  below 100 parses but is implausible and yields the value only; \<open>null\<close> and the empty string
  yield no object.
\<close>

theorem parseCreatorDate_granularity:
  "(matches_year_month s \<and> 100 \<le> digits_val (take 4 s)
      \<and> 1 \<le> digits_val (drop 5 s) \<and> digits_val (drop 5 s) \<le> 12 \<longrightarrow>
      parseCreatorDate other (Some s) =
        Some \<lparr>dt_value = Some s, dt_year = Some (digits_val (take 4 s)),
              dt_month = Some (digits_val (drop 5 s)), dt_day = None\<rparr>)
   \<and> (matches_year s \<and> 100 \<le> digits_val s \<longrightarrow>
      parseCreatorDate other (Some s) =
        Some \<lparr>dt_value = Some s, dt_year = Some (digits_val s), dt_month = None, dt_day = None\<rparr>)
   \<and> (s \<noteq> [] \<and> js_Date other s = None \<longrightarrow>
      parseCreatorDate other (Some s) =
        Some \<lparr>dt_value = Some s, dt_year = None, dt_month = None, dt_day = None\<rparr>)
   \<and> (matches_year s \<and> digits_val s < 100 \<longrightarrow>
      parseCreatorDate other (Some s) =
        Some \<lparr>dt_value = Some s, dt_year = None, dt_month = None, dt_day = None\<rparr>)
   \<and> parseCreatorDate other None = None
   \<and> parseCreatorDate other (Some []) = None"
proof (intro conjI impI)
  assume a: "matches_year_month s \<and> 100 \<le> digits_val (take 4 s)
      \<and> 1 \<le> digits_val (drop 5 s) \<and> digits_val (drop 5 s) \<le> 12"
  then have "s \<noteq> []" by (auto simp: matches_year_month_def)
  then show "parseCreatorDate other (Some s) =
        Some \<lparr>dt_value = Some s, dt_year = Some (digits_val (take 4 s)),
              dt_month = Some (digits_val (drop 5 s)), dt_day = None\<rparr>"
    using a ym_not_y[of s] by (simp add: parseCreatorDate_def js_Date_def)
next
  assume a: "matches_year s \<and> 100 \<le> digits_val s"
  then have "s \<noteq> []" by (auto simp: matches_year_def)
  then show "parseCreatorDate other (Some s) =
        Some \<lparr>dt_value = Some s, dt_year = Some (digits_val s), dt_month = None, dt_day = None\<rparr>"
    using a by (simp add: parseCreatorDate_def js_Date_def)
next
  assume "s \<noteq> [] \<and> js_Date other s = None"
  then show "parseCreatorDate other (Some s) =
        Some \<lparr>dt_value = Some s, dt_year = None, dt_month = None, dt_day = None\<rparr>"
    by (simp add: parseCreatorDate_def)
next
  assume a: "matches_year s \<and> digits_val s < 100"
  then have "s \<noteq> []" by (auto simp: matches_year_def)
  then show "parseCreatorDate other (Some s) =
        Some \<lparr>dt_value = Some s, dt_year = None, dt_month = None, dt_day = None\<rparr>"
    using a by (simp add: parseCreatorDate_def js_Date_def)
qed (simp_all add: parseCreatorDate_def)

theorem parseCreatorDate_granularity_witness:
  "parseCreatorDate no_other_formats (Some ''1986-09'') =
     Some \<lparr>dt_value = Some ''1986-09'', dt_year = Some 1986, dt_month = Some 9, dt_day = None\<rparr>
   \<and> parseCreatorDate no_other_formats (Some ''1986'') =
     Some \<lparr>dt_value = Some ''1986'', dt_year = Some 1986, dt_month = None, dt_day = None\<rparr>
   \<and> parseCreatorDate no_other_formats (Some ''1986-13'') =
     Some \<lparr>dt_value = Some ''1986-13'', dt_year = None, dt_month = None, dt_day = None\<rparr>
   \<and> parseCreatorDate no_other_formats (Some ''0986'') =
     Some \<lparr>dt_value = Some ''0986'', dt_year = Some 986, dt_month = None, dt_day = None\<rparr>"
proof -
  have ym: "matches_year_month ''1986-09'' \<and> 100 \<le> digits_val (take 4 ''1986-09'')
      \<and> 1 \<le> digits_val (drop 5 ''1986-09'') \<and> digits_val (drop 5 ''1986-09'') \<le> 12"
    by code_simp
  have ymv: "digits_val (take 4 ''1986-09'') = 1986" "digits_val (drop 5 ''1986-09'') = 9"
    by code_simp+
  have y: "matches_year ''1986'' \<and> 100 \<le> digits_val ''1986''" by code_simp
  have yv: "digits_val ''1986'' = 1986" by code_simp
  have u: "''1986-13'' \<noteq> [] \<and> js_Date no_other_formats ''1986-13'' = None"
    by code_simp
  have z: "matches_year ''0986'' \<and> 100 \<le> digits_val ''0986''" by code_simp
  have zv: "digits_val ''0986'' = 986" by code_simp
  show ?thesis
    using parseCreatorDate_granularity[of "''1986-09''" no_other_formats]
      parseCreatorDate_granularity[of "''1986''" no_other_formats]
      parseCreatorDate_granularity[of "''1986-13''" no_other_formats]
      parseCreatorDate_granularity[of "''0986''" no_other_formats]
      ym ymv y yv u z zv
    by simp
qed

text \<open>
  C1 as stated fails for a bare four-digit year below 100: \<open>new Date("0050")\<close> is a valid date
  of the year 50, and the guard \<open>if (year < 100) return { value: dateString }\<close> comes before
  the test for a bare year, so no year field is emitted.
\<close>

theorem parseCreatorDate_bare_year_counterexample:
  "matches_year ''0050''
   \<and> parseCreatorDate no_other_formats (Some ''0050'') =
       Some \<lparr>dt_value = Some ''0050'', dt_year = None, dt_month = None, dt_day = None\<rparr>"
  by code_simp

section \<open>Properties of the rate-limited fetch client\<close>

lemma rateLimitedFetch_dispatch:
  "dispatched_at (rateLimitedFetch c now s net) = Some (max now (lastRequestTime c + rateLimitDelay c))
   \<and> lastRequestTime (client_after (rateLimitedFetch c now s net))
       = max now (lastRequestTime c + rateLimitDelay c)"
  by (auto simp add: rateLimitedFetch_def Let_def max_def)

lemma rateLimitedFetch_phase7_aborted:
  "now - lastRequestTime c < rateLimitDelay c \<Longrightarrow> now \<le> a \<Longrightarrow>
   a < lastRequestTime c + rateLimitDelay c \<Longrightarrow>
   rateLimitedFetch_phase7 c now (Some a) net =
     \<lparr>client_after = c, dispatched_at = None, settled_at = a, settled = Thrown RequestAborted\<rparr>"
  by (simp add: rateLimitedFetch_phase7_def)

text \<open>
  C8. In the current source the abort signal has no effect on \<open>rateLimitedFetch\<close>: a call
  whose signal fires during the spacing delay behaves as a call without a signal. It
  dispatches the request when the delay is over and settles with the response.
\<close>

theorem rateLimitedFetch_ignores_abort:
  "rateLimitedFetch c now (Some a) net = rateLimitedFetch c now None net
   \<and> rateLimitedFetch \<lparr>lastRequestTime = 1000, rateLimitDelay = 1000\<rparr> 1500 (Some 1700) (Responded 200 j)
       = \<lparr>client_after = \<lparr>lastRequestTime = 2000, rateLimitDelay = 1000\<rparr>,
          dispatched_at = Some 2000, settled_at = 2000, settled = Resolved j\<rparr>
   \<and> rateLimitedFetch_phase7 \<lparr>lastRequestTime = 1000, rateLimitDelay = 1000\<rparr> 1500 (Some 1700) (Responded 200 j)
       = \<lparr>client_after = \<lparr>lastRequestTime = 1000, rateLimitDelay = 1000\<rparr>,
          dispatched_at = None, settled_at = 1700, settled = Thrown RequestAborted\<rparr>"
  by (simp add: rateLimitedFetch_def rateLimitedFetch_phase7_def)

text \<open>
  C9. A call waits for the remainder of the interval counted from \<open>lastRequestTime\<close>
  (\<open>rateLimitedFetch_dispatch\<close>), but \<open>lastRequestTime\<close> is only written when the wait is over.
  Three calls through one client with a delay of 1000, started at 5000, 5100 and 5200:
  the second and the third both read the dispatch time 5000 and both dispatch at 6000.
\<close>

theorem dispatch_times_overlap:
  "dispatch_times \<lparr>lastRequestTime = 0, rateLimitDelay = 1000\<rparr> [5000, 5100, 5200]
     = [5000, 6000, 6000]"
  by (simp add: dispatch_times_def start_call_def)

section \<open>Document store\<close>

text \<open>
  Frontmatter is a dynamically typed object: its values are whatever the YAML of a note
  holds. Numbers are the integers (identifiers, years); no claim depends on fractions.
  An object is the list of its own properties in insertion order.
\<close>

datatype jsval = JUndefined | JNull | JBool bool | JNum int | JStr string
  | JArr "jsval list" | JObj "(string \<times> jsval) list"

type_synonym frontmatter = "(string \<times> jsval) list"

text \<open>
  \<open>frontmatter.key\<close> reads an own property (\<open>undefined\<close> when there is none; none of the
  keys the plugin reads is a member of \<open>Object.prototype\<close>), \<open>frontmatter.key = v\<close> writes it
  in place or appends it.
\<close>

definition fm_get :: "frontmatter \<Rightarrow> string \<Rightarrow> jsval" where
  "fm_get fm k = (case map_of fm k of Some v \<Rightarrow> v | None \<Rightarrow> JUndefined)"

fun fm_set :: "string \<Rightarrow> jsval \<Rightarrow> frontmatter \<Rightarrow> frontmatter" where
  "fm_set k v [] = [(k, v)]"
| "fm_set k v ((k', v') # fm) = (if k' = k then (k, v) # fm else (k', v') # fm_set k v fm)"

text \<open>
  The vault. A note is kept parsed: \<open>Headed fm body\<close> stands for the text
  \<open>---\\n\<close> YAML of \<open>fm\<close> \<open>\\n---\\n\<close> \<open>body\<close>, and \<open>Plain text\<close> for a text without a frontmatter
  block. \<open>stringifyYaml\<close> and \<open>parseYaml\<close> belong to the host application and are taken to
  be inverse to each other, and the metadata cache to be in step with the files. The
  vault is the list of its paths in creation order, each a folder or a file.
\<close>

datatype content = Plain string | Headed frontmatter string
datatype entry = Folder | File content
type_synonym vault = "(string \<times> entry) list"

text \<open>
  What can be thrown: a \<open>TypeError\<close> (a method called on a value that has none), and the
  vault's refusal to create a file where something exists already.
\<close>

datatype js_error = TypeError | FileExists

definition getAbstractFileByPath :: "vault \<Rightarrow> string \<Rightarrow> entry option" where
  "getAbstractFileByPath v p = map_of v p"

definition ensureFolderExists :: "vault \<Rightarrow> string \<Rightarrow> vault" where
  "ensureFolderExists v p = (if getAbstractFileByPath v p = None then v @ [(p, Folder)] else v)"

definition vault_create :: "vault \<Rightarrow> string \<Rightarrow> content \<Rightarrow> js_error + vault" where
  "vault_create v p c = (if getAbstractFileByPath v p \<noteq> None then Inl FileExists else Inr (v @ [(p, File c)]))"

definition vault_modify :: "vault \<Rightarrow> string \<Rightarrow> content \<Rightarrow> vault" where
  "vault_modify v p c = map (\<lambda>(q, e). if q = p then (q, File c) else (q, e)) v"

text \<open>
  \<open>buildFrontmatter\<close> drops the properties that are \<open>undefined\<close>, returns the body alone when
  none is left, and writes \<open>body.trimStart()\<close> after the header. \<open>parseFrontmatter\<close> matches
  \<open>/^---\\s*[\\r\\n]+([\\s\\S]*?)[\\r\\n]+---\\s*[\\r\\n]?([\\s\\S]*)$/\<close>: the \<open>\\s*\<close> after the closing
  delimiter is greedy and nothing after it can fail, so the body it returns has lost its
  leading white space; a text without a header is returned whole as the body.
\<close>

definition buildFrontmatter :: "frontmatter \<Rightarrow> string \<Rightarrow> content" where
  "buildFrontmatter fm body =
     (let cleanFrontmatter = filter (\<lambda>(k, v). v \<noteq> JUndefined) fm in
      if cleanFrontmatter = [] then Plain (trimStart body)
      else Headed cleanFrontmatter (trimStart body))"

definition parseFrontmatter :: "content \<Rightarrow> frontmatter \<times> string" where
  "parseFrontmatter c = (case c of Headed fm body \<Rightarrow> (fm, trimStart body) | Plain t \<Rightarrow> ([], t))"

text \<open>
  \<open>sanitizeForFileName\<close> is \<open>name.replace(/[<>:"/\\|?*#^|[\\]]/g, '').trim()\<close>; \<open>basename\<close> is the
  file name of a path without its extension (\<open>TFile.basename\<close>).
\<close>

definition sanitizeForFileName :: "string \<Rightarrow> string" where
  "sanitizeForFileName name = trim (filter (\<lambda>c. c \<notin> set (''<>:'' @ [CHR 0x22] @ ''/'' @ [CHR 0x5C] @ ''|?*#^[]'')) name)"

definition file_name :: "string \<Rightarrow> string" where
  "file_name p = last (split_on CHR ''/'' p)"

definition basename :: "string \<Rightarrow> string" where
  "basename p =
     (let n = file_name p in
      if CHR ''.'' \<in> set n then rev (tl (dropWhile (\<lambda>c. c \<noteq> CHR ''.'') (rev n))) else n)"

text \<open>The settings the engine reads, and their defaults.\<close>

record settings =
  comicsFolder :: string
  peopleFolder :: string
  createCreatorNotes :: bool
  downloadCreatorImages :: bool
  creatorImagesFolder :: string

definition DEFAULT_SETTINGS :: settings where
  "DEFAULT_SETTINGS =
     \<lparr>comicsFolder = ''Comics'', peopleFolder = ''Entities/People'', createCreatorNotes = True,
      downloadCreatorImages = False, creatorImagesFolder = ''Assets/Creators''\<rparr>"

subsection \<open>Role concepts\<close>

text \<open>
  \<open>getOrCreateRoleNote\<close> (part_002, lines 964-999). The role note lives at
  \<open>comicsFolder/Concepts/<sanitized capitalized role> (Role).md\<close>. When it is missing, the
  parent of the role is looked up in the object literal \<open>roleHierarchy\<close> and resolved first by
  a recursive call; the function keeps no record of the names it is resolving. A name that
  selects an inherited member of \<open>Object.prototype\<close> makes the recursive call fail with a
  \<open>TypeError\<close> (\<open>roleName.charAt\<close> is not a function).
\<close>

definition roleHierarchy :: "(string \<times> string) list" where
  "roleHierarchy =
     [(''Penciler'', ''Artist''), (''Penciller'', ''Artist''), (''Inker'', ''Artist''),
      (''Colorist'', ''Artist''), (''Cover artist'', ''Artist''), (''Script'', ''Writer'')]"

definition capitalizedRole :: "string \<Rightarrow> string" where
  "capitalizedRole roleName = (case roleName of [] \<Rightarrow> [] | c # cs \<Rightarrow> toUpperChar c # trim cs)"

definition roleFrontmatter :: "string \<Rightarrow> string \<Rightarrow> frontmatter" where
  "roleFrontmatter now cap =
     [(''entityType'', JStr ''RoleConcept''), (''name'', JStr cap), (''aliases'', JArr []),
      (''tags'', JArr [JStr ''concept'', JStr ''role'']),
      (''creation date'', JStr now), (''modification date'', JStr now),
      (''description'', JStr (''A creative role in comic book production: '' @ cap))]"

definition roleBody :: "string \<Rightarrow> string" where
  "roleBody cap = ''# '' @ cap @ [CHR 0x0A, CHR 0x0A] @ ''## People with this Role'' @ [CHR 0x0A, CHR 0x0A]"

definition conceptsFolder :: "settings \<Rightarrow> string" where
  "conceptsFolder cfg = comicsFolder cfg @ ''/Concepts''"

definition roleFilePath :: "settings \<Rightarrow> string \<Rightarrow> string" where
  "roleFilePath cfg roleName =
     conceptsFolder cfg @ ''/'' @ sanitizeForFileName (capitalizedRole roleName) @ '' (Role).md''"

function getOrCreateRoleNote :: "settings \<Rightarrow> string \<Rightarrow> string \<Rightarrow> vault \<Rightarrow> (js_error \<times> vault) + (string \<times> vault)" where
  "getOrCreateRoleNote cfg now roleName v =
     (let cap = capitalizedRole roleName;
          v1 = ensureFolderExists v (conceptsFolder cfg);
          filepath = roleFilePath cfg roleName
      in case getAbstractFileByPath v1 filepath of
           Some file \<Rightarrow> Inr (filepath, v1)
         | None \<Rightarrow>
             (case js_index roleHierarchy cap of
                Absent \<Rightarrow>
                  (case vault_create v1 filepath (buildFrontmatter (roleFrontmatter now cap) (roleBody cap)) of
                     Inl e \<Rightarrow> Inl (e, v1) | Inr v2 \<Rightarrow> Inr (filepath, v2))
              | Inherited m \<Rightarrow> Inl (TypeError, v1)
              | Own parentRoleName \<Rightarrow>
                  (case getOrCreateRoleNote cfg now parentRoleName v1 of
                     Inl ev \<Rightarrow> Inl ev
                   | Inr (parentPath, v2) \<Rightarrow>
                       (case vault_create v2 filepath
                               (buildFrontmatter
                                  (fm_set ''subConceptOf'' (JStr (''[['' @ basename parentPath @ '']]'')) (roleFrontmatter now cap))
                                  (roleBody cap)) of
                          Inl e \<Rightarrow> Inl (e, v2) | Inr v3 \<Rightarrow> Inr (filepath, v3)))))"
  by pat_completeness auto

text \<open>
  The recursion ends because a parent named by the table (Artist, Writer) has no parent
  itself.
\<close>

lemma roleHierarchy_values: "js_index roleHierarchy k = Own p \<Longrightarrow> p = ''Artist'' \<or> p = ''Writer''"
  by (auto simp: js_index_def roleHierarchy_def split: option.splits if_splits)

lemma roleHierarchy_roots:
  "js_index roleHierarchy (capitalizedRole ''Artist'') = Absent"
  "js_index roleHierarchy (capitalizedRole ''Writer'') = Absent"
  by code_simp+

lemma roleHierarchy_parent:
  "js_index roleHierarchy k = Own p \<Longrightarrow> js_index roleHierarchy (capitalizedRole p) = Absent"
  using roleHierarchy_values[of k p] roleHierarchy_roots by auto

termination getOrCreateRoleNote
  by (relation "measure (\<lambda>(cfg, now, roleName, v). case js_index roleHierarchy (capitalizedRole roleName) of Own p \<Rightarrow> 1 | _ \<Rightarrow> 0)")
     (auto simp: roleHierarchy_parent)



text \<open>
  The same function over an arbitrary parent table, to speak about tables the source does
  not have. It may not return: \<open>None\<close> is a resolution that never ends.
\<close>

partial_function (option) getOrCreateRoleNote_over ::
  "(string \<times> string) list \<Rightarrow> settings \<Rightarrow> string \<Rightarrow> string \<Rightarrow> vault \<Rightarrow> ((js_error \<times> vault) + (string \<times> vault)) option" where
  "getOrCreateRoleNote_over table cfg now roleName v =
     (let cap = capitalizedRole roleName;
          v1 = ensureFolderExists v (conceptsFolder cfg);
          filepath = roleFilePath cfg roleName
      in case getAbstractFileByPath v1 filepath of
           Some file \<Rightarrow> Some (Inr (filepath, v1))
         | None \<Rightarrow>
             (case js_index table cap of
                Absent \<Rightarrow>
                  Some (case vault_create v1 filepath (buildFrontmatter (roleFrontmatter now cap) (roleBody cap)) of
                     Inl e \<Rightarrow> Inl (e, v1) | Inr v2 \<Rightarrow> Inr (filepath, v2))
              | Inherited m \<Rightarrow> Some (Inl (TypeError, v1))
              | Own parentRoleName \<Rightarrow>
                  Option.bind (getOrCreateRoleNote_over table cfg now parentRoleName v1)
                    (\<lambda>r. Some (case r of
                       Inl ev \<Rightarrow> Inl ev
                     | Inr (parentPath, v2) \<Rightarrow>
                       (case vault_create v2 filepath
                               (buildFrontmatter
                                  (fm_set ''subConceptOf'' (JStr (''[['' @ basename parentPath @ '']]'')) (roleFrontmatter now cap))
                                  (roleBody cap)) of
                          Inl e \<Rightarrow> Inl (e, v2) | Inr v3 \<Rightarrow> Inr (filepath, v3))))))"




text \<open>
  For the claims: a parent table with a cycle, the state of a resolution over it that has
  not created either note yet, and the two notes that resolving Penciler creates.
\<close>

definition cyclic_table :: "(string \<times> string) list" where
  "cyclic_table = [(''A'', ''B''), (''B'', ''A'')]"

definition cycle_open :: "(string \<times> string) list \<Rightarrow> settings \<Rightarrow> string \<Rightarrow> vault \<Rightarrow> bool" where
  "cycle_open table cfg r v =
     (table = cyclic_table \<and> (r = ''A'' \<or> r = ''B'')
      \<and> map_of v (roleFilePath cfg ''A'') = None \<and> map_of v (roleFilePath cfg ''B'') = None)"

definition artistNote :: "string \<Rightarrow> content" where
  "artistNote now = Headed (roleFrontmatter now ''Artist'') (roleBody ''Artist'')"

definition pencilerNote :: "string \<Rightarrow> content" where
  "pencilerNote now =
     Headed (roleFrontmatter now ''Penciler'' @ [(''subConceptOf'', JStr ''[[Artist (Role)]]'')])
            (roleBody ''Penciler'')"

definition pencilerVault :: "string \<Rightarrow> vault" where
  "pencilerVault now =
     [(''Comics/Concepts'', Folder),
      (''Comics/Concepts/Artist (Role).md'', File (artistNote now)),
      (''Comics/Concepts/Penciler (Role).md'', File (pencilerNote now))]"


section \<open>Properties of role-concept resolution\<close>

declare getOrCreateRoleNote.simps [simp del]

lemma getOrCreateRoleNote_over_static:
  "getOrCreateRoleNote_over roleHierarchy cfg now roleName v = Some (getOrCreateRoleNote cfg now roleName v)"
proof (induction cfg now roleName v rule: getOrCreateRoleNote.induct)
  case (1 cfg now roleName v)
  let ?v1 = "ensureFolderExists v (conceptsFolder cfg)"
  show ?case
  proof (cases "getAbstractFileByPath ?v1 (roleFilePath cfg roleName)")
    case (Some f)
    then show ?thesis
      by (subst getOrCreateRoleNote_over.simps, subst getOrCreateRoleNote.simps) (simp add: Let_def)
  next
    case None
    show ?thesis
    proof (cases "js_index roleHierarchy (capitalizedRole roleName)")
      case (Own parent)
      have IH: "getOrCreateRoleNote_over roleHierarchy cfg now parent ?v1
                  = Some (getOrCreateRoleNote cfg now parent ?v1)"
        using 1[OF refl refl refl None Own] .
      show ?thesis
        by (subst getOrCreateRoleNote_over.simps, subst getOrCreateRoleNote.simps)
           (simp add: Let_def None Own IH)
    next
      case (Inherited m)
      then show ?thesis
        by (subst getOrCreateRoleNote_over.simps, subst getOrCreateRoleNote.simps)
           (simp add: Let_def None)
    next
      case Absent
      then show ?thesis
        by (subst getOrCreateRoleNote_over.simps, subst getOrCreateRoleNote.simps)
           (simp add: Let_def None)
    qed
  qed
qed

lemma cyc_paths:
  "roleFilePath cfg ''A'' = conceptsFolder cfg @ ''/A (Role).md''"
  "roleFilePath cfg ''B'' = conceptsFolder cfg @ ''/B (Role).md''"
  "capitalizedRole ''A'' = ''A''" "capitalizedRole ''B'' = ''B''"
  "js_index cyclic_table ''A'' = Own ''B''" "js_index cyclic_table ''B'' = Own ''A''"
  unfolding roleFilePath_def by code_simp+


lemma map_of_ensureFolderExists:
  "p \<noteq> q \<Longrightarrow> map_of (ensureFolderExists v q) p = map_of v p"
  by (simp add: ensureFolderExists_def getAbstractFileByPath_def map_add_def split: option.splits)

lemma role_path_not_folder: "roleFilePath cfg r \<noteq> conceptsFolder cfg"
  by (simp add: roleFilePath_def)

lemma cyclic_never_returns:
  assumes "getOrCreateRoleNote_over table cfg now r v = Some y"
  shows "\<not> cycle_open table cfg r v"
proof (rule getOrCreateRoleNote_over.raw_induct
    [where P = "\<lambda>table cfg now r v y. \<not> cycle_open table cfg r v", OF _ assms])
  fix f :: "(string \<times> string) list \<Rightarrow> settings \<Rightarrow> string \<Rightarrow> string \<Rightarrow> vault
               \<Rightarrow> ((js_error \<times> vault) + (string \<times> vault)) option"
    and table cfg and now :: string and roleName v y
  assume IH: "\<And>table' cfg' now' roleName' v' y'.
                 f table' cfg' now' roleName' v' = Some y' \<Longrightarrow> \<not> cycle_open table' cfg' roleName' v'"
  let ?v1 = "ensureFolderExists v (conceptsFolder cfg)"
  assume body: "(let cap = capitalizedRole roleName;
          v1 = ensureFolderExists v (conceptsFolder cfg);
          filepath = roleFilePath cfg roleName
      in case getAbstractFileByPath v1 filepath of
         None \<Rightarrow>
           (case js_index table cap of
           Own parentRoleName \<Rightarrow>
             Option.bind
              (f table cfg now parentRoleName v1)
              (\<lambda>r. Some
                    (case r of Inl ev \<Rightarrow> Inl ev
                     | Inr (parentPath, v2) \<Rightarrow>
                         (case vault_create v2 filepath
                               (buildFrontmatter
                                 (fm_set ''subConceptOf''
                                   (JStr (''[['' @ basename parentPath @ '']]''))
                                   (roleFrontmatter now cap))
                                 (roleBody cap)) of
                         Inl e \<Rightarrow> Inl (e, v2) | Inr v3 \<Rightarrow> Inr (filepath, v3))))
           | Inherited m \<Rightarrow> Some (Inl (TypeError, v1))
           | Absent \<Rightarrow>
               Some
                (case vault_create v1 filepath
                       (buildFrontmatter (roleFrontmatter now cap)
                         (roleBody cap)) of
                 Inl e \<Rightarrow> Inl (e, v1) | Inr v2 \<Rightarrow> Inr (filepath, v2)))
         | Some file \<Rightarrow> Some (Inr (filepath, v1))) =
     Some y"
  show "\<not> cycle_open table cfg roleName v"
  proof
    assume open_: "cycle_open table cfg roleName v"
    then have t: "table = cyclic_table" and r: "roleName = ''A'' \<or> roleName = ''B''"
      and a: "map_of v (roleFilePath cfg ''A'') = None" and b: "map_of v (roleFilePath cfg ''B'') = None"
      by (auto simp: cycle_open_def)
    have a1: "map_of ?v1 (roleFilePath cfg ''A'') = None" and b1: "map_of ?v1 (roleFilePath cfg ''B'') = None"
      using a b by (simp_all add: map_of_ensureFolderExists role_path_not_folder)
    from r show False
    proof
      assume ra: "roleName = ''A''"
      from body obtain y' where "f table cfg now ''B'' ?v1 = Some y'"
        by (auto simp: Let_def ra t a1 cyc_paths(3-6) getAbstractFileByPath_def split: Option.bind_splits)
      from IH[OF this] t a1 b1 show False by (simp add: cycle_open_def)
    next
      assume rb: "roleName = ''B''"
      from body obtain y' where "f table cfg now ''A'' ?v1 = Some y'"
        by (auto simp: Let_def rb t b1 cyc_paths(3-6) getAbstractFileByPath_def split: Option.bind_splits)
      from IH[OF this] t a1 b1 show False by (simp add: cycle_open_def)
    qed
  qed
qed


lemma split_on_append_sep: "split_on d (xs @ d # ys) = split_on d xs @ split_on d ys"
proof (induction xs)
  case Nil
  then show ?case by simp
next
  case (Cons c cs)
  obtain w ws where sp: "split_on d cs = w # ws"
    using split_on_nonempty[of d cs] by (cases "split_on d cs") auto
  show ?case using Cons sp by simp
qed

lemma file_name_append: "CHR ''/'' \<notin> set n \<Longrightarrow> file_name (dir @ ''/'' @ n) = n"
  using split_on_nonempty[of "CHR ''/''" dir]
  by (simp add: file_name_def split_on_append_sep split_on_no_sep)

lemma basename_role: "basename (conceptsFolder cfg @ ''/Artist (Role).md'') = ''Artist (Role)''"
proof -
  have "file_name (conceptsFolder cfg @ ''/'' @ ''Artist (Role).md'') = ''Artist (Role).md''"
    by (rule file_name_append) simp
  then show ?thesis by (simp add: basename_def)
qed

lemma role_paths:
  "roleFilePath cfg ''Penciler'' = conceptsFolder cfg @ ''/Penciler (Role).md''"
  "roleFilePath cfg ''Artist'' = conceptsFolder cfg @ ''/Artist (Role).md''"
  "capitalizedRole ''Penciler'' = ''Penciler''" "capitalizedRole ''Artist'' = ''Artist''"
  "js_index roleHierarchy ''Penciler'' = Own ''Artist''" "js_index roleHierarchy ''Artist'' = Absent"
  unfolding roleFilePath_def by code_simp+

lemma map_of_snoc:
  "map_of (v @ [(p, e)]) q = (case map_of v q of Some x \<Rightarrow> Some x | None \<Rightarrow> if q = p then Some e else None)"
  by (induction v) auto

lemma lookup_append_keep:
  "getAbstractFileByPath v q \<noteq> None \<Longrightarrow> getAbstractFileByPath (v @ new) q = getAbstractFileByPath v q"
  by (auto simp: getAbstractFileByPath_def map_add_def split: option.splits)

lemma lookup_ensureFolderExists:
  "getAbstractFileByPath (ensureFolderExists v q) p =
     (case getAbstractFileByPath v p of Some x \<Rightarrow> Some x | None \<Rightarrow> if p = q then Some Folder else None)"
  by (simp add: ensureFolderExists_def getAbstractFileByPath_def map_of_snoc del: map_of_append
           split: option.splits)

lemma ensureFolderExists_appends: "\<exists>new. ensureFolderExists v q = v @ new"
  by (simp add: ensureFolderExists_def)

lemma vault_create_Inr:
  "vault_create v p c = Inr v' \<Longrightarrow>
     v' = v @ [(p, File c)] \<and> getAbstractFileByPath v p = None
     \<and> getAbstractFileByPath v' p = Some (File c)"
  by (auto simp: vault_create_def getAbstractFileByPath_def map_of_snoc simp del: map_of_append
           split: if_splits)

lemma getOrCreateRoleNote_appends:
  "(getOrCreateRoleNote cfg now r v = Inr (p, v') \<longrightarrow>
      p = roleFilePath cfg r \<and> (\<exists>new. v' = v @ new) \<and> getAbstractFileByPath v' p \<noteq> None
      \<and> getAbstractFileByPath v' (conceptsFolder cfg) \<noteq> None)
   \<and> (getOrCreateRoleNote cfg now r v = Inl (e, v') \<longrightarrow> (\<exists>new. v' = v @ new))"
proof (induction cfg now r v arbitrary: p v' e rule: getOrCreateRoleNote.induct)
  case (1 cfg now roleName v)
  let ?v1 = "ensureFolderExists v (conceptsFolder cfg)"
  let ?fp = "roleFilePath cfg roleName"
  obtain new1 where v1: "?v1 = v @ new1" using ensureFolderExists_appends by blast
  have f1: "getAbstractFileByPath ?v1 (conceptsFolder cfg) \<noteq> None"
    by (simp add: lookup_ensureFolderExists split: option.splits)
  have created: "getAbstractFileByPath w' ?fp \<noteq> None \<and> w' = w @ [(?fp, File c)]
      \<and> (getAbstractFileByPath w (conceptsFolder cfg) \<noteq> None \<longrightarrow> getAbstractFileByPath w' (conceptsFolder cfg) \<noteq> None)"
    if "vault_create w ?fp c = Inr w'" for w w' c
    using vault_create_Inr[OF that] lookup_append_keep[of w "conceptsFolder cfg" "[(?fp, File c)]"] by auto
  show ?case
  proof (cases "getAbstractFileByPath ?v1 ?fp")
    case (Some f)
    have eq: "getOrCreateRoleNote cfg now roleName v = Inr (?fp, ?v1)"
      by (subst getOrCreateRoleNote.simps) (simp add: Let_def Some)
    show ?thesis using v1 f1 Some by (auto simp add: eq)
  next
    case None
    show ?thesis
    proof (cases "js_index roleHierarchy (capitalizedRole roleName)")
      case (Own parent)
      note IH = 1[OF refl refl refl None Own]
      let ?c = "buildFrontmatter
                   (fm_set ''subConceptOf'' (JStr (''[['' @ basename (roleFilePath cfg parent) @ '']]''))
                      (roleFrontmatter now (capitalizedRole roleName)))
                   (roleBody (capitalizedRole roleName))"
      show ?thesis
      proof (cases "getOrCreateRoleNote cfg now parent ?v1")
        case (Inl ev)
        obtain e0 w where ev: "ev = (e0, w)" by (cases ev)
        have eq: "getOrCreateRoleNote cfg now roleName v = Inl (e0, w)"
          by (subst getOrCreateRoleNote.simps) (simp add: Let_def None Own Inl ev)
        from IH[of undefined w e0] Inl ev v1 have "\<exists>new. w = v @ new" by auto
        then show ?thesis by (auto simp add: eq)
      next
        case (Inr pw)
        obtain pp w where pw: "pw = (pp, w)" by (cases pw)
        from IH[of pp w undefined] Inr pw v1 obtain new where w: "w = v @ new"
          and fw: "getAbstractFileByPath w (conceptsFolder cfg) \<noteq> None"
          and pp: "pp = roleFilePath cfg parent"
          by auto
        show ?thesis
        proof (cases "vault_create w ?fp ?c")
          case (Inl e1)
          have eq: "getOrCreateRoleNote cfg now roleName v = Inl (e1, w)"
            using Inl
            by (subst getOrCreateRoleNote.simps)
               (simp add: Let_def None Own \<open>getOrCreateRoleNote cfg now parent ?v1 = Inr pw\<close> pw pp)
          show ?thesis using w by (auto simp add: eq)
        next
          case (Inr w3)
          have eq: "getOrCreateRoleNote cfg now roleName v = Inr (?fp, w3)"
            using Inr
            by (subst getOrCreateRoleNote.simps)
               (simp add: Let_def None Own \<open>getOrCreateRoleNote cfg now parent ?v1 = Inr pw\<close> pw pp)
          from created[OF Inr] fw w have "getAbstractFileByPath w3 ?fp \<noteq> None"
            and "\<exists>new. w3 = v @ new" and "getAbstractFileByPath w3 (conceptsFolder cfg) \<noteq> None"
            by auto
          then show ?thesis by (auto simp add: eq)
        qed
      qed
    next
      case (Inherited m)
      have eq: "getOrCreateRoleNote cfg now roleName v = Inl (TypeError, ?v1)"
        by (subst getOrCreateRoleNote.simps) (simp add: Let_def None Inherited)
      show ?thesis using v1 by (auto simp add: eq)
    next
      case Absent
      let ?c = "buildFrontmatter (roleFrontmatter now (capitalizedRole roleName))
                   (roleBody (capitalizedRole roleName))"
      show ?thesis
      proof (cases "vault_create ?v1 ?fp ?c")
        case (Inl e1)
        have eq: "getOrCreateRoleNote cfg now roleName v = Inl (e1, ?v1)"
          by (subst getOrCreateRoleNote.simps) (simp add: Let_def None Absent Inl)
        show ?thesis using v1 by (auto simp add: eq)
      next
        case (Inr w2)
        have eq: "getOrCreateRoleNote cfg now roleName v = Inr (?fp, w2)"
          by (subst getOrCreateRoleNote.simps) (simp add: Let_def None Absent Inr)
        from created[OF Inr] f1 v1 have "getAbstractFileByPath w2 ?fp \<noteq> None"
          and "\<exists>new. w2 = v @ new" and "getAbstractFileByPath w2 (conceptsFolder cfg) \<noteq> None"
          by auto
        then show ?thesis by (auto simp add: eq)
      qed
    qed
  qed
qed

lemma ensureFolderExists_present: "getAbstractFileByPath v q \<noteq> None \<Longrightarrow> ensureFolderExists v q = v"
  by (simp add: ensureFolderExists_def)

lemma getOrCreateRoleNote_present:
  "getAbstractFileByPath v (conceptsFolder cfg) \<noteq> None \<Longrightarrow>
   getAbstractFileByPath v (roleFilePath cfg r) \<noteq> None \<Longrightarrow>
   getOrCreateRoleNote cfg now r v = Inr (roleFilePath cfg r, v)"
  by (subst getOrCreateRoleNote.simps)
     (auto simp add: Let_def ensureFolderExists_present)

lemma getOrCreateRoleNote_again:
  "getOrCreateRoleNote cfg now r v = Inr (p, v') \<Longrightarrow> getOrCreateRoleNote cfg now' r v' = Inr (p, v')"
  using getOrCreateRoleNote_appends[of cfg now r v p v'] getOrCreateRoleNote_present[of v' cfg r now']
  by auto

lemma lookup_snoc:
  "getAbstractFileByPath (v @ [(p, e)]) q =
     (case getAbstractFileByPath v q of Some x \<Rightarrow> Some x | None \<Rightarrow> if q = p then Some e else None)"
  by (simp add: getAbstractFileByPath_def map_of_snoc del: map_of_append)

lemma vault_create_absent:
  "getAbstractFileByPath v p = None \<Longrightarrow> vault_create v p c = Inr (v @ [(p, File c)])"
  by (simp add: vault_create_def)

lemma roleBody_trimStart: "trimStart (roleBody cap) = roleBody cap"
  by (simp add: roleBody_def trimStart_def is_space_def)

lemma build_artist: "buildFrontmatter (roleFrontmatter now ''Artist'') (roleBody ''Artist'') = artistNote now"
  by (simp add: buildFrontmatter_def roleBody_trimStart artistNote_def roleFrontmatter_def)

lemma build_penciler:
  "buildFrontmatter (fm_set ''subConceptOf'' (JStr (''[['' @ ''Artist (Role)'' @ '']]'')) (roleFrontmatter now ''Penciler''))
     (roleBody ''Penciler'') = pencilerNote now"
  by (simp add: buildFrontmatter_def roleBody_trimStart pencilerNote_def roleFrontmatter_def)

lemma getOrCreateRoleNote_Penciler_fresh:
  assumes p: "getAbstractFileByPath v (roleFilePath cfg ''Penciler'') = None"
    and a: "getAbstractFileByPath v (roleFilePath cfg ''Artist'') = None"
  shows "getOrCreateRoleNote cfg now ''Penciler'' v =
           Inr (roleFilePath cfg ''Penciler'',
                ensureFolderExists v (conceptsFolder cfg)
                  @ [(roleFilePath cfg ''Artist'', File (artistNote now)),
                     (roleFilePath cfg ''Penciler'', File (pencilerNote now))])"
proof -
  let ?v1 = "ensureFolderExists v (conceptsFolder cfg)"
  let ?ap = "roleFilePath cfg ''Artist''" and ?pp = "roleFilePath cfg ''Penciler''"
  have p1: "getAbstractFileByPath ?v1 ?pp = None" and a1: "getAbstractFileByPath ?v1 ?ap = None"
    using p a by (simp_all add: lookup_ensureFolderExists role_path_not_folder)
  have f1: "ensureFolderExists ?v1 (conceptsFolder cfg) = ?v1"
    by (rule ensureFolderExists_present) (simp add: lookup_ensureFolderExists split: option.splits)
  have ne: "?pp \<noteq> ?ap" by (simp add: role_paths)
  have A: "getOrCreateRoleNote cfg now ''Artist'' ?v1 = Inr (?ap, ?v1 @ [(?ap, File (artistNote now))])"
    by (subst getOrCreateRoleNote.simps)
       (simp add: Let_def f1 a1 role_paths(3-6) build_artist vault_create_absent)
  have p2: "getAbstractFileByPath (?v1 @ [(?ap, File (artistNote now))]) ?pp = None"
    using p1 ne by (simp add: lookup_snoc)
  have bn: "basename ?ap = ''Artist (Role)''"
    by (simp add: role_paths(2) basename_role)
  show ?thesis
    by (subst getOrCreateRoleNote.simps)
       (simp add: Let_def p1 role_paths(3-6) A bn build_penciler[simplified] vault_create_absent[OF p2])
qed

lemma roleFilePath_canonical:
  "capitalizedRole r' = capitalizedRole r \<Longrightarrow> roleFilePath cfg r' = roleFilePath cfg r"
  by (simp add: roleFilePath_def)

lemma lookup_append:
  "getAbstractFileByPath (v @ w) q =
     (case getAbstractFileByPath v q of Some x \<Rightarrow> Some x | None \<Rightarrow> getAbstractFileByPath w q)"
  by (simp add: getAbstractFileByPath_def map_add_def split: option.splits)

text \<open>
  C4. Resolving Penciler in a vault that holds neither role note creates the Artist note
  and the Penciler note, whose header has \<open>subConceptOf: [[Artist (Role)]]\<close>, and nothing else
  but the Concepts folder; resolving Penciler again returns the same note and leaves the
  vault as it is. In general, once a role has been resolved, resolving any name with the
  same capitalized form returns the same note and changes nothing.
\<close>

theorem getOrCreateRoleNote_once:
  "(getAbstractFileByPath v (roleFilePath cfg ''Penciler'') = None
      \<and> getAbstractFileByPath v (roleFilePath cfg ''Artist'') = None \<longrightarrow>
      (\<exists>v'. getOrCreateRoleNote cfg now ''Penciler'' v = Inr (roleFilePath cfg ''Penciler'', v')
         \<and> v' = ensureFolderExists v (conceptsFolder cfg)
                  @ [(roleFilePath cfg ''Artist'', File (artistNote now)),
                     (roleFilePath cfg ''Penciler'', File (pencilerNote now))]
         \<and> getAbstractFileByPath v' (roleFilePath cfg ''Artist'') = Some (File (artistNote now))
         \<and> getAbstractFileByPath v' (roleFilePath cfg ''Penciler'') = Some (File (pencilerNote now))
         \<and> getOrCreateRoleNote cfg later ''Penciler'' v' = Inr (roleFilePath cfg ''Penciler'', v')))
   \<and> (getOrCreateRoleNote cfg now r w = Inr (p, w') \<and> capitalizedRole r' = capitalizedRole r \<longrightarrow>
        getOrCreateRoleNote cfg later r' w' = Inr (p, w'))"
proof (intro conjI impI)
  assume fresh: "getAbstractFileByPath v (roleFilePath cfg ''Penciler'') = None
      \<and> getAbstractFileByPath v (roleFilePath cfg ''Artist'') = None"
  let ?v1 = "ensureFolderExists v (conceptsFolder cfg)"
  let ?ap = "roleFilePath cfg ''Artist''" and ?pp = "roleFilePath cfg ''Penciler''"
  let ?v' = "?v1 @ [(?ap, File (artistNote now)), (?pp, File (pencilerNote now))]"
  have run: "getOrCreateRoleNote cfg now ''Penciler'' v = Inr (?pp, ?v')"
    using fresh by (simp add: getOrCreateRoleNote_Penciler_fresh)
  have p1: "getAbstractFileByPath ?v1 ?pp = None" and a1: "getAbstractFileByPath ?v1 ?ap = None"
    using fresh by (simp_all add: lookup_ensureFolderExists role_path_not_folder)
  have ne: "?pp \<noteq> ?ap" by (simp add: role_paths)
  have la: "getAbstractFileByPath ?v' ?ap = Some (File (artistNote now))"
    using a1 by (simp add: lookup_append) (simp add: getAbstractFileByPath_def)
  have lp: "getAbstractFileByPath ?v' ?pp = Some (File (pencilerNote now))"
    using p1 ne by (simp add: lookup_append) (simp add: getAbstractFileByPath_def)
  have again: "getOrCreateRoleNote cfg later ''Penciler'' ?v' = Inr (?pp, ?v')"
    using run by (rule getOrCreateRoleNote_again)
  show "\<exists>v'. getOrCreateRoleNote cfg now ''Penciler'' v = Inr (?pp, v')
         \<and> v' = ?v'
         \<and> getAbstractFileByPath v' ?ap = Some (File (artistNote now))
         \<and> getAbstractFileByPath v' ?pp = Some (File (pencilerNote now))
         \<and> getOrCreateRoleNote cfg later ''Penciler'' v' = Inr (?pp, v')"
    using run la lp again by blast
next
  assume h: "getOrCreateRoleNote cfg now r w = Inr (p, w') \<and> capitalizedRole r' = capitalizedRole r"
  then have "p = roleFilePath cfg r'" and "getAbstractFileByPath w' p \<noteq> None"
    and "getAbstractFileByPath w' (conceptsFolder cfg) \<noteq> None"
    using getOrCreateRoleNote_appends[of cfg now r w p w'] roleFilePath_canonical[of r' r cfg] by auto
  then show "getOrCreateRoleNote cfg later r' w' = Inr (p, w')"
    by (simp add: getOrCreateRoleNote_present)
qed

theorem getOrCreateRoleNote_once_witness:
  "getOrCreateRoleNote DEFAULT_SETTINGS ''2025-01-01T00:00:00.000Z'' ''Penciler'' []
     = Inr (''Comics/Concepts/Penciler (Role).md'', pencilerVault ''2025-01-01T00:00:00.000Z'')
   \<and> getOrCreateRoleNote DEFAULT_SETTINGS ''2025-01-02T00:00:00.000Z'' ''Penciler''
         (pencilerVault ''2025-01-01T00:00:00.000Z'')
     = Inr (''Comics/Concepts/Penciler (Role).md'', pencilerVault ''2025-01-01T00:00:00.000Z'')
   \<and> getOrCreateRoleNote DEFAULT_SETTINGS ''2025-01-02T00:00:00.000Z'' ''penciler''
         (pencilerVault ''2025-01-01T00:00:00.000Z'')
     = Inr (''Comics/Concepts/Penciler (Role).md'', pencilerVault ''2025-01-01T00:00:00.000Z'')"
proof -
  let ?t = "''2025-01-01T00:00:00.000Z''" and ?u = "''2025-01-02T00:00:00.000Z''"
  have paths: "roleFilePath DEFAULT_SETTINGS ''Penciler'' = ''Comics/Concepts/Penciler (Role).md''"
    "roleFilePath DEFAULT_SETTINGS ''Artist'' = ''Comics/Concepts/Artist (Role).md''"
    "conceptsFolder DEFAULT_SETTINGS = ''Comics/Concepts''"
    by code_simp+
  have fresh: "getAbstractFileByPath [] (roleFilePath DEFAULT_SETTINGS ''Penciler'') = None
      \<and> getAbstractFileByPath [] (roleFilePath DEFAULT_SETTINGS ''Artist'') = None"
    by (simp add: getAbstractFileByPath_def)
  have v': "ensureFolderExists [] (conceptsFolder DEFAULT_SETTINGS)
                  @ [(roleFilePath DEFAULT_SETTINGS ''Artist'', File (artistNote ?t)),
                     (roleFilePath DEFAULT_SETTINGS ''Penciler'', File (pencilerNote ?t))]
            = pencilerVault ?t"
    by (simp add: paths pencilerVault_def ensureFolderExists_def getAbstractFileByPath_def)
  have cap: "capitalizedRole ''penciler'' = capitalizedRole ''Penciler''" by code_simp
  from getOrCreateRoleNote_once[of "[]" DEFAULT_SETTINGS ?t ?u] fresh v'
  have first: "getOrCreateRoleNote DEFAULT_SETTINGS ?t ''Penciler'' [] = Inr (''Comics/Concepts/Penciler (Role).md'', pencilerVault ?t)"
    and second: "getOrCreateRoleNote DEFAULT_SETTINGS ?u ''Penciler'' (pencilerVault ?t) = Inr (''Comics/Concepts/Penciler (Role).md'', pencilerVault ?t)"
    by (auto simp: paths)
  from getOrCreateRoleNote_once[of "[]" DEFAULT_SETTINGS ?t ?u "''Penciler''" "[]" "''Comics/Concepts/Penciler (Role).md''" "pencilerVault ?t" "''penciler''"]
    first cap
  have third: "getOrCreateRoleNote DEFAULT_SETTINGS ?u ''penciler'' (pencilerVault ?t) = Inr (''Comics/Concepts/Penciler (Role).md'', pencilerVault ?t)"
    by blast
  show ?thesis using first second third by simp
qed

text \<open>
  C10, as the code has it. The function tracks no visited names. It terminates for every
  role name and every vault because the table is fixed and no parent it names has a parent:
  the general function, run on the table of the source, always returns what the terminating
  definition returns.
\<close>

theorem getOrCreateRoleNote_terminates:
  "getOrCreateRoleNote_over roleHierarchy cfg now roleName v = Some (getOrCreateRoleNote cfg now roleName v)
   \<and> list_all (\<lambda>(child, parent). js_index roleHierarchy (capitalizedRole parent) = Absent) roleHierarchy"
proof
  show "getOrCreateRoleNote_over roleHierarchy cfg now roleName v = Some (getOrCreateRoleNote cfg now roleName v)"
    by (rule getOrCreateRoleNote_over_static)
  show "list_all (\<lambda>(child, parent). js_index roleHierarchy (capitalizedRole parent) = Absent) roleHierarchy"
    by code_simp
qed

text \<open>
  C10 as stated fails: over a table with a cycle (A under B, B under A) and an empty vault,
  the resolution of A never returns.
\<close>

theorem getOrCreateRoleNote_cycle_counterexample:
  "getOrCreateRoleNote_over cyclic_table DEFAULT_SETTINGS ''2025-01-01T00:00:00.000Z'' ''A'' [] = None"
proof (cases "getOrCreateRoleNote_over cyclic_table DEFAULT_SETTINGS ''2025-01-01T00:00:00.000Z'' ''A'' []")
  case None
  then show ?thesis .
next
  case (Some y)
  from cyclic_never_returns[OF Some] show ?thesis by (simp add: cycle_open_def)
qed


section \<open>Person notes\<close>

subsection \<open>JavaScript operations on frontmatter values\<close>

text \<open>
  The frontmatter of a note is whatever YAML the user wrote, so every operation of
  \<open>ensureCreatorNotesExist\<close> on a field is modelled on an arbitrary \<^typ>\<open>jsval\<close>:
  \<open>!x\<close> is \<open>\<not> truthy x\<close>; \<open>x.includes(s)\<close> works on arrays and strings and throws a
  \<open>TypeError\<close> on every other truthy value; \<open>x.push\<close>, \<open>x.some\<close> and \<open>x.sort\<close> throw on
  everything but an array; the callback of \<open>some\<close> reads \<open>c.role\<close> and \<open>c.work\<close>, which throws
  on \<open>null\<close> and \<open>undefined\<close>.
\<close>

fun truthy :: "jsval \<Rightarrow> bool" where
  "truthy JUndefined = False"
| "truthy JNull = False"
| "truthy (JBool b) = b"
| "truthy (JNum n) = (n \<noteq> 0)"
| "truthy (JStr s) = (s \<noteq> [])"
| "truthy (JArr xs) = True"
| "truthy (JObj kv) = True"

fun includes_str :: "string \<Rightarrow> string \<Rightarrow> bool" where
  "includes_str [] pat = (pat = [])"
| "includes_str (c # cs) pat = (take (length pat) (c # cs) = pat \<or> includes_str cs pat)"

fun js_includes :: "jsval \<Rightarrow> string \<Rightarrow> js_error + bool" where
  "js_includes (JArr xs) x = Inr (JStr x \<in> set xs)"
| "js_includes (JStr s) x = Inr (includes_str s x)"
| "js_includes v x = Inl TypeError"

fun js_push :: "jsval \<Rightarrow> jsval \<Rightarrow> js_error + jsval" where
  "js_push (JArr xs) x = Inr (JArr (xs @ [x]))"
| "js_push v x = Inl TypeError"

fun credit_matches :: "jsval \<Rightarrow> string \<Rightarrow> string \<Rightarrow> js_error + bool" where
  "credit_matches JNull r w = Inl TypeError"
| "credit_matches JUndefined r w = Inl TypeError"
| "credit_matches (JObj kv) r w = Inr (fm_get kv ''role'' = JStr r \<and> fm_get kv ''work'' = JStr w)"
| "credit_matches c r w = Inr False"

fun some_credit :: "jsval list \<Rightarrow> string \<Rightarrow> string \<Rightarrow> js_error + bool" where
  "some_credit [] r w = Inr False"
| "some_credit (c # cs) r w =
     (case credit_matches c r w of
        Inl e \<Rightarrow> Inl e
      | Inr True \<Rightarrow> Inr True
      | Inr False \<Rightarrow> some_credit cs r w)"

fun js_some_credit :: "jsval \<Rightarrow> string \<Rightarrow> string \<Rightarrow> js_error + bool" where
  "js_some_credit (JArr cs) r w = some_credit cs r w"
| "js_some_credit v r w = Inl TypeError"

text \<open>
  \<open>Array.prototype.sort()\<close> without a comparator orders the elements by their string
  conversions and is stable. An integer converts to its decimal digits, with a minus
  sign when negative.
\<close>

function show_digits :: "int \<Rightarrow> string" where
  "show_digits n = (if n < 10 then [char_of (48 + n)] else show_digits (n div 10) @ [char_of (48 + n mod 10)])"
  by pat_completeness auto

termination show_digits
  by (relation "measure nat") auto

declare show_digits.simps [simp del]

definition show_int :: "int \<Rightarrow> string" where
  "show_int i = (if i < 0 then CHR ''-'' # show_digits (- i) else show_digits i)"

fun js_to_string :: "jsval \<Rightarrow> string" where
  "js_to_string JUndefined = ''undefined''"
| "js_to_string JNull = ''null''"
| "js_to_string (JBool b) = (if b then ''true'' else ''false'')"
| "js_to_string (JNum n) = show_int n"
| "js_to_string (JStr s) = s"
| "js_to_string (JArr xs) =
     join '','' (map (\<lambda>x. if x = JNull \<or> x = JUndefined then [] else js_to_string x) xs)"
| "js_to_string (JObj kv) = ''[object Object]''"

fun js_sort :: "jsval \<Rightarrow> js_error + jsval" where
  "js_sort (JArr xs) = Inr (JArr (sort_key js_to_string xs))"
| "js_sort v = Inl TypeError"


subsection \<open>Upserting the Person notes of an issue\<close>

text \<open>
  \<open>person_credit\<close> is an element of \<open>ComicVineIssue['person_credits']\<close>, \<open>unique_creator\<close> a
  value of the \<open>uniqueCreators\<close> map, \<open>ComicVinePerson\<close> the fields of the API answer that
  the function reads (\<open>death?.date\<close> and \<open>image?.super_url\<close> as options). The environment
  \<open>env\<close> carries what the function obtains from outside the vault: the answer of
  \<open>client.getPersonDetails\<close> per URL (\<open>None\<close> when the request throws), the image bytes of
  \<open>requestUrl\<close> per URL, the date parser on strings other than years and year-months,
  and the three clock readings \<open>new Date().toISOString()\<close>.
\<close>

record person_credit =
  credit_id :: int
  credit_name :: string
  credit_role :: string
  credit_api_detail_url :: string

record unique_creator =
  uc_id :: int
  uc_name :: string
  uc_api_detail_url :: string
  uc_roles :: "string list"

record ComicVinePerson =
  person_id :: int
  person_name :: string
  person_birth :: "string option"
  person_death_date :: "string option"
  person_site_detail_url :: string
  person_image_super_url :: "string option"

record env =
  getPersonDetails :: "string \<Rightarrow> ComicVinePerson option"
  requestImage :: "string \<Rightarrow> string option"
  other_dates :: "string \<Rightarrow> utc_date option"
  fetchedAt :: string
  writtenAt :: string
  roleCreatedAt :: string

text \<open>
  The \<open>forEach\<close> over the credits fills a \<open>Map\<close> keyed by creator id; a \<open>Map\<close> iterates in
  insertion order, so it is an association list that keeps the place of the first
  credit of each id and appends the roles of the later ones.
\<close>

fun add_creator :: "person_credit \<Rightarrow> unique_creator list \<Rightarrow> unique_creator list" where
  "add_creator c [] =
     [\<lparr>uc_id = credit_id c, uc_name = credit_name c, uc_api_detail_url = credit_api_detail_url c,
       uc_roles = map trim (split_on CHR '','' (credit_role c))\<rparr>]"
| "add_creator c (u # us) =
     (if uc_id u = credit_id c
      then u\<lparr>uc_roles := uc_roles u @ map trim (split_on CHR '','' (credit_role c))\<rparr> # us
      else u # add_creator c us)"

definition uniqueCreators :: "person_credit list \<Rightarrow> unique_creator list" where
  "uniqueCreators creators = foldl (\<lambda>us c. add_creator c us) [] creators"

text \<open>
  \<open>findPersonNote(creatorId, creatorName)\<close>: the first file directly inside the people
  folder whose cached frontmatter has \<open>comicVineId === creatorId\<close>, otherwise the file at
  \<open>peopleFolder/sanitized name.md\<close>, otherwise nothing. The children of a folder are the
  vault entries whose parent path is the folder.
\<close>

definition parent_path :: "string \<Rightarrow> string" where
  "parent_path p = join ''/'' (butlast (split_on CHR ''/'' p))"

definition cached_id_is :: "int \<Rightarrow> entry \<Rightarrow> bool" where
  "cached_id_is creatorId e =
     (case e of File (Headed fm body) \<Rightarrow> fm_get fm ''comicVineId'' = JNum creatorId | _ \<Rightarrow> False)"

definition personPath :: "settings \<Rightarrow> string \<Rightarrow> string" where
  "personPath cfg creatorName = peopleFolder cfg @ ''/'' @ sanitizeForFileName creatorName @ ''.md''"

definition findPersonNote :: "settings \<Rightarrow> vault \<Rightarrow> int \<Rightarrow> string \<Rightarrow> (string \<times> content) option" where
  "findPersonNote cfg v creatorId creatorName =
     (case getAbstractFileByPath v (peopleFolder cfg) of
        Some Folder \<Rightarrow>
          (case find (\<lambda>(p, e). parent_path p = peopleFolder cfg \<and> cached_id_is creatorId e) v of
             Some (p, File c) \<Rightarrow> Some (p, c)
           | _ \<Rightarrow>
               (case getAbstractFileByPath v (personPath cfg creatorName) of
                  Some (File c) \<Rightarrow> Some (personPath cfg creatorName, c)
                | _ \<Rightarrow> None))
      | _ \<Rightarrow> None)"

text \<open>
  The body of the \<open>try\<close> block (lines 877-907): defaults for \<open>entityType\<close>, \<open>name\<close>,
  \<open>comicVineId\<close>, \<open>comicVineUrl\<close>, the fields of a new note, \<open>modification date\<close>, the two
  dates and the image. Each step returns the frontmatter and the \<open>changed\<close> flag.
\<close>

definition dateInfoValue :: "DateTimeInfo \<Rightarrow> jsval" where
  "dateInfoValue d =
     JObj ((case dt_value d of Some s \<Rightarrow> [(''value'', JStr s)] | None \<Rightarrow> [])
         @ (case dt_year d of Some y \<Rightarrow> [(''year'', JNum y)] | None \<Rightarrow> [])
         @ (case dt_month d of Some m \<Rightarrow> [(''month'', JNum m)] | None \<Rightarrow> [])
         @ (case dt_day d of Some n \<Rightarrow> [(''day'', JNum n)] | None \<Rightarrow> []))"

definition set_if_falsy :: "string \<Rightarrow> jsval \<Rightarrow> frontmatter \<times> bool \<Rightarrow> frontmatter \<times> bool" where
  "set_if_falsy k val st =
     (case st of (fm, changed) \<Rightarrow>
        if \<not> truthy (fm_get fm k) then (fm_set k val fm, True) else (fm, changed))"

definition set_date_if_falsy :: "string \<Rightarrow> DateTimeInfo option \<Rightarrow> frontmatter \<times> bool \<Rightarrow> frontmatter \<times> bool" where
  "set_date_if_falsy k info st =
     (case info of None \<Rightarrow> st | Some d \<Rightarrow> set_if_falsy k (dateInfoValue d) st)"

definition mergeDetails :: "env \<Rightarrow> bool \<Rightarrow> ComicVinePerson \<Rightarrow> frontmatter \<Rightarrow> frontmatter \<times> bool" where
  "mergeDetails en found personDetails frontmatter =
     (let st1 = (if \<not> truthy (fm_get frontmatter ''entityType'')
                    \<or> fm_get frontmatter ''entityType'' = JStr ''ComicCreator''
                 then (fm_set ''entityType'' (JStr ''Person'') frontmatter, True)
                 else (frontmatter, False));
          st2 = set_if_falsy ''name'' (JStr (person_name personDetails)) st1;
          st3 = set_if_falsy ''comicVineId'' (JNum (person_id personDetails)) st2;
          st4 = set_if_falsy ''comicVineUrl'' (JStr (person_site_detail_url personDetails)) st3;
          st5 = (if \<not> found
                 then (fm_set ''creation date'' (JStr (fetchedAt en))
                         (fm_set ''tags'' (JArr [JStr ''person'', JStr ''comic-creator''])
                           (fm_set ''aliases'' (JArr []) (fst st4))), True)
                 else st4);
          st6 = (fm_set ''modification date'' (JStr (fetchedAt en)) (fst st5), snd st5);
          st7 = set_date_if_falsy ''birthDate''
                  (parseCreatorDate (other_dates en) (person_birth personDetails)) st6
      in set_date_if_falsy ''deathDate''
           (parseCreatorDate (other_dates en) (person_death_date personDetails)) st7)"

text \<open>
  \<open>downloadImage(url, folder, fileName)\<close> (lines 526-545): an existing file is reused, a
  failed request or a failed creation gives \<open>null\<close>.
\<close>

definition downloadImage :: "env \<Rightarrow> vault \<Rightarrow> string \<Rightarrow> string \<Rightarrow> string \<Rightarrow> string option \<times> vault" where
  "downloadImage en v url folder fileName =
     (let v1 = ensureFolderExists v folder;
          filePath = folder @ ''/'' @ sanitizeForFileName fileName
      in case getAbstractFileByPath v1 filePath of
           Some (File c) \<Rightarrow> (Some filePath, v1)
         | _ \<Rightarrow>
             (case requestImage en url of
                None \<Rightarrow> (None, v1)
              | Some image_data \<Rightarrow>
                  (case vault_create v1 filePath (Plain image_data) of
                     Inl e \<Rightarrow> (None, v1)
                   | Inr v2 \<Rightarrow> (Some filePath, v2))))"

definition mergeImage :: "settings \<Rightarrow> env \<Rightarrow> ComicVinePerson \<Rightarrow> (frontmatter \<times> bool) \<times> vault \<Rightarrow> (frontmatter \<times> bool) \<times> vault" where
  "mergeImage cfg en personDetails sv =
     (case sv of (st, v) \<Rightarrow>
        (case person_image_super_url personDetails of
           Some url \<Rightarrow>
             if downloadCreatorImages cfg \<and> url \<noteq> [] then
               (case downloadImage en v url (creatorImagesFolder cfg)
                       (''person-'' @ show_int (person_id personDetails) @ ''-photo.jpg'') of
                  (Some localImagePath, v1) \<Rightarrow>
                    (set_if_falsy ''image'' (JStr (''[['' @ file_name localImagePath @ '']]'')) st, v1)
                | (None, v1) \<Rightarrow> (st, v1))
             else (st, v)
         | None \<Rightarrow> (st, v)))"

text \<open>
  After the \<open>try\<close> block (lines 915-926): the three list fields are defaulted and the two
  tags ensured.
\<close>

definition default_array :: "string \<Rightarrow> frontmatter \<Rightarrow> frontmatter" where
  "default_array k fm = (if \<not> truthy (fm_get fm k) then fm_set k (JArr []) fm else fm)"

definition ensureTag :: "string \<Rightarrow> frontmatter \<times> bool \<Rightarrow> js_error + frontmatter \<times> bool" where
  "ensureTag t st =
     (case st of (fm, changed) \<Rightarrow>
        (case js_includes (fm_get fm ''tags'') t of
           Inl e \<Rightarrow> Inl e
         | Inr True \<Rightarrow> Inr (fm, changed)
         | Inr False \<Rightarrow>
             (case js_push (fm_get fm ''tags'') (JStr t) of
                Inl e \<Rightarrow> Inl e
              | Inr tags \<Rightarrow> Inr (fm_set ''tags'' tags fm, True))))"

definition ensureLists :: "frontmatter \<times> bool \<Rightarrow> js_error + frontmatter \<times> bool" where
  "ensureLists st =
     (case st of (fm, changed) \<Rightarrow>
        (case ensureTag ''person''
                (default_array ''tags'' (default_array ''credits'' (default_array ''roles'' fm)), changed) of
           Inl e \<Rightarrow> Inl e
         | Inr st1 \<Rightarrow> ensureTag ''comic-creator'' st1))"

text \<open>
  The loop over \<open>new Set(creator.roles)\<close> (lines 928-946): an empty role name is skipped,
  the role note is resolved, the role link is added to \<open>roles\<close> unless included, and the
  credit \<open>{role, work}\<close> is pushed unless some credit has the same role and work.
\<close>

definition addRoleLink :: "string \<Rightarrow> frontmatter \<times> bool \<Rightarrow> js_error + frontmatter \<times> bool" where
  "addRoleLink roleLink st =
     (case st of (fm, changed) \<Rightarrow>
        (case js_includes (fm_get fm ''roles'') roleLink of
           Inl e \<Rightarrow> Inl e
         | Inr True \<Rightarrow> Inr (fm, changed)
         | Inr False \<Rightarrow>
             (case js_push (fm_get fm ''roles'') (JStr roleLink) of
                Inl e \<Rightarrow> Inl e
              | Inr roles \<Rightarrow> Inr (fm_set ''roles'' roles fm, True))))"

definition addCredit :: "string \<Rightarrow> string \<Rightarrow> frontmatter \<times> bool \<Rightarrow> js_error + frontmatter \<times> bool" where
  "addCredit roleLink issueLink st =
     (case st of (fm, changed) \<Rightarrow>
        (case js_some_credit (fm_get fm ''credits'') roleLink issueLink of
           Inl e \<Rightarrow> Inl e
         | Inr True \<Rightarrow> Inr (fm, changed)
         | Inr False \<Rightarrow>
             (case js_push (fm_get fm ''credits'')
                     (JObj [(''role'', JStr roleLink), (''work'', JStr issueLink)]) of
                Inl e \<Rightarrow> Inl e
              | Inr credits \<Rightarrow> Inr (fm_set ''credits'' credits fm, True))))"

definition addRole :: "settings \<Rightarrow> env \<Rightarrow> string \<Rightarrow> string \<Rightarrow> (frontmatter \<times> bool) \<times> vault
    \<Rightarrow> (js_error \<times> vault) + ((frontmatter \<times> bool) \<times> vault)" where
  "addRole cfg en issueBasename roleName sv =
     (case sv of (st, v) \<Rightarrow>
        if roleName = [] then Inr (st, v)
        else
          (case getOrCreateRoleNote cfg (roleCreatedAt en) roleName v of
             Inl ev \<Rightarrow> Inl ev
           | Inr (rolePath, v1) \<Rightarrow>
               (let roleLink = ''[['' @ basename rolePath @ '']]'';
                    issueLink = ''[['' @ issueBasename @ '']]''
                in case addRoleLink roleLink st of
                     Inl e \<Rightarrow> Inl (e, v1)
                   | Inr st1 \<Rightarrow>
                       (case addCredit roleLink issueLink st1 of
                          Inl e \<Rightarrow> Inl (e, v1)
                        | Inr st2 \<Rightarrow> Inr (st2, v1)))))"

fun addRoles :: "settings \<Rightarrow> env \<Rightarrow> string \<Rightarrow> string list \<Rightarrow> (frontmatter \<times> bool) \<times> vault
    \<Rightarrow> (js_error \<times> vault) + ((frontmatter \<times> bool) \<times> vault)" where
  "addRoles cfg en issueBasename [] sv = Inr sv"
| "addRoles cfg en issueBasename (roleName # rest) sv =
     (case addRole cfg en issueBasename roleName sv of
        Inl ev \<Rightarrow> Inl ev
      | Inr sv1 \<Rightarrow> addRoles cfg en issueBasename rest sv1)"

text \<open>The members of \<open>new Set(xs)\<close> in iteration order: first occurrences.\<close>

fun set_order :: "'a list \<Rightarrow> 'a list" where
  "set_order [] = []"
| "set_order (x # xs) = x # filter (\<lambda>y. y \<noteq> x) (set_order xs)"

text \<open>
  The write (lines 948-960) happens only when \<open>changed\<close> is set: the roles are sorted, the
  modification date refreshed, and the note is modified in place or created at the
  name-based path (\<open>vault.create\<close> throws when that path is taken).
\<close>

definition writePerson :: "settings \<Rightarrow> env \<Rightarrow> unique_creator \<Rightarrow> string option \<Rightarrow> string
    \<Rightarrow> (frontmatter \<times> bool) \<times> vault \<Rightarrow> (js_error \<times> vault) + vault" where
  "writePerson cfg en creator personFile body sv =
     (case sv of ((fm, changed), v) \<Rightarrow>
        if \<not> changed then Inr v
        else
          (case js_sort (fm_get fm ''roles'') of
             Inl e \<Rightarrow> Inl (e, v)
           | Inr roles \<Rightarrow>
               (let newContent =
                      buildFrontmatter
                        (fm_set ''modification date'' (JStr (writtenAt en)) (fm_set ''roles'' roles fm))
                        body
                in case personFile of
                     Some path \<Rightarrow> Inr (vault_modify v path newContent)
                   | None \<Rightarrow>
                       (case vault_create v (personPath cfg (uc_name creator)) newContent of
                          Inl e \<Rightarrow> Inl (e, v)
                        | Inr v1 \<Rightarrow> Inr v1))))"

text \<open>
  One iteration of the loop over the unique creators. A failed detail request takes the
  \<open>continue\<close> of the \<open>catch\<close> block and leaves the vault as the iteration found it; an
  exception after the \<open>try\<close> block ends the whole function, with the vault as it is then.
\<close>

definition processCreator :: "settings \<Rightarrow> env \<Rightarrow> string \<Rightarrow> unique_creator \<Rightarrow> vault \<Rightarrow> (js_error \<times> vault) + vault" where
  "processCreator cfg en issueBasename creator v =
     (let found = findPersonNote cfg v (uc_id creator) (uc_name creator);
          personFile = map_option fst found;
          parsed = (case found of
                      Some (path, c) \<Rightarrow> parseFrontmatter c
                    | None \<Rightarrow> ([], ''# '' @ uc_name creator @ [CHR 0x0A, CHR 0x0A]))
      in case getPersonDetails en (uc_api_detail_url creator) of
           None \<Rightarrow> Inr v
         | Some personDetails \<Rightarrow>
             (case mergeImage cfg en personDetails
                     (mergeDetails en (found \<noteq> None) personDetails (fst parsed), v) of
                (st, v1) \<Rightarrow>
                  (case ensureLists st of
                     Inl e \<Rightarrow> Inl (e, v1)
                   | Inr st1 \<Rightarrow>
                       (case addRoles cfg en issueBasename (set_order (uc_roles creator)) (st1, v1) of
                          Inl ev \<Rightarrow> Inl ev
                        | Inr sv2 \<Rightarrow> writePerson cfg en creator personFile (snd parsed) sv2))))"

fun processCreators :: "settings \<Rightarrow> env \<Rightarrow> string \<Rightarrow> unique_creator list \<Rightarrow> vault \<Rightarrow> (js_error \<times> vault) + vault" where
  "processCreators cfg en issueBasename [] v = Inr v"
| "processCreators cfg en issueBasename (creator # rest) v =
     (case processCreator cfg en issueBasename creator v of
        Inl ev \<Rightarrow> Inl ev
      | Inr v1 \<Rightarrow> processCreators cfg en issueBasename rest v1)"

definition ensureCreatorNotesExist :: "settings \<Rightarrow> env \<Rightarrow> person_credit list \<Rightarrow> string \<Rightarrow> vault \<Rightarrow> (js_error \<times> vault) + vault" where
  "ensureCreatorNotesExist cfg en creators issueFile v =
     (if \<not> createCreatorNotes cfg \<or> creators = [] then Inr v
      else processCreators cfg en (basename issueFile) (uniqueCreators creators)
             (ensureFolderExists v (peopleFolder cfg)))"


section \<open>Properties of the person upsert\<close>

subsection \<open>Frontmatter updates\<close>

lemma map_of_fm_set: "map_of (fm_set k v fm) = (map_of fm)(k \<mapsto> v)"
  by (induction fm) (auto simp: fun_eq_iff)

lemma fm_get_fm_set: "fm_get (fm_set k v fm) k' = (if k' = k then v else fm_get fm k')"
  by (simp add: fm_get_def map_of_fm_set)

lemma keys_fm_set: "fst ` set (fm_set k v fm) = insert k (fst ` set fm)"
proof -
  have "dom (map_of (fm_set k v fm)) = insert k (dom (map_of fm))"
    by (simp add: map_of_fm_set)
  then show ?thesis by (simp only: dom_map_of_conv_image_fst)
qed

lemma distinct_fm_set: "distinct (map fst fm) \<Longrightarrow> distinct (map fst (fm_set k v fm))"
proof (induction fm)
  case Nil
  then show ?case by simp
next
  case (Cons a fm)
  obtain k' v' where a: "a = (k', v')" by (cases a)
  show ?case
  proof (cases "k' = k")
    case True
    then show ?thesis using Cons a by simp
  next
    case False
    have "k' \<notin> fst ` set (fm_set k v fm)"
      using Cons.prems a False by (simp add: keys_fm_set)
    then show ?thesis using Cons a False by simp
  qed
qed

lemma fm_get_absent: "k \<notin> fst ` set fm \<Longrightarrow> fm_get fm k = JUndefined"
  by (simp add: fm_get_def map_of_eq_None_iff[THEN iffD2])

lemma fm_get_clean:
  "distinct (map fst fm) \<Longrightarrow> fm_get (filter (\<lambda>(k, v). v \<noteq> JUndefined) fm) k = fm_get fm k"
proof (induction fm)
  case Nil
  then show ?case by simp
next
  case (Cons a fm)
  obtain k' v' where a: "a = (k', v')" by (cases a)
  have nk: "k' \<notin> fst ` set fm" using Cons.prems a by simp
  then have "k' \<notin> fst ` set (filter (\<lambda>(k, v). v \<noteq> JUndefined) fm)" by auto
  then have later: "fm_get (filter (\<lambda>(k, v). v \<noteq> JUndefined) fm) k' = JUndefined"
    by (rule fm_get_absent)
  have IH: "fm_get (filter (\<lambda>(k, v). v \<noteq> JUndefined) fm) k = fm_get fm k"
    using Cons by simp
  show ?case
  proof (cases "k = k'")
    case True
    then show ?thesis using a later by (simp add: fm_get_def)
  next
    case False
    then show ?thesis using a IH by (simp add: fm_get_def)
  qed
qed

lemma distinct_clean:
  "distinct (map fst fm) \<Longrightarrow> distinct (map fst (filter (\<lambda>(k, v). v \<noteq> JUndefined) fm))"
  by (rule distinct_map_filter)


subsection \<open>What an update keeps of a header\<close>

text \<open>
  The keys that the upsert fills in when they hold nothing, and its three list keys.
  \<open>header_preserved fm fm'\<close>: every field other than \<open>modification date\<close> and the list fields
  has the same value in \<open>fm'\<close> as in \<open>fm\<close>, unless it is one of the keys the upsert fills in
  and holds a falsy value, or is an \<open>entityType\<close> of \<open>ComicCreator\<close>; a list field that is an
  array in \<open>fm\<close> is an array in \<open>fm'\<close> with at least the same elements; and a list field that
  holds a truthy value other than an array keeps it.
\<close>

definition populated_keys :: "string set" where
  "populated_keys = {''entityType'', ''name'', ''comicVineId'', ''comicVineUrl'', ''birthDate'',
                     ''deathDate'', ''image''}"

definition list_keys :: "string set" where
  "list_keys = {''roles'', ''credits'', ''tags''}"

definition header_preserved :: "frontmatter \<Rightarrow> frontmatter \<Rightarrow> bool" where
  "header_preserved fm fm' =
     ((\<forall>k. k \<notin> insert ''modification date'' list_keys \<longrightarrow>
           (k \<in> populated_keys \<longrightarrow> truthy (fm_get fm k)) \<longrightarrow>
           (k = ''entityType'' \<longrightarrow> fm_get fm k \<noteq> JStr ''ComicCreator'') \<longrightarrow>
           fm_get fm' k = fm_get fm k)
      \<and> (\<forall>k xs. k \<in> list_keys \<longrightarrow> fm_get fm k = JArr xs \<longrightarrow>
            (\<exists>ys. fm_get fm' k = JArr ys \<and> set xs \<subseteq> set ys))
      \<and> (\<forall>k. k \<in> list_keys \<longrightarrow> truthy (fm_get fm k) \<longrightarrow> (\<forall>xs. fm_get fm k \<noteq> JArr xs) \<longrightarrow>
            fm_get fm' k = fm_get fm k))"

definition merged :: "frontmatter \<Rightarrow> frontmatter \<Rightarrow> bool" where
  "merged fm fm' =
     (header_preserved fm fm'
      \<and> (distinct (map fst fm) \<longrightarrow> distinct (map fst fm'))
      \<and> (truthy (fm_get fm ''entityType'') \<longrightarrow> truthy (fm_get fm' ''entityType'')))"

lemma merged_refl: "merged fm fm"
  by (simp add: merged_def header_preserved_def)

lemma header_preserved_trans:
  assumes "header_preserved a b" "header_preserved b c"
  shows "header_preserved a c"
  unfolding header_preserved_def
proof (intro conjI allI impI)
  fix k
  assume k: "k \<notin> insert ''modification date'' list_keys"
    and t: "k \<in> populated_keys \<longrightarrow> truthy (fm_get a k)"
    and e: "k = ''entityType'' \<longrightarrow> fm_get a k \<noteq> JStr ''ComicCreator''"
  from assms(1) k t e have ab: "fm_get b k = fm_get a k"
    unfolding header_preserved_def by blast
  from ab t have tb: "k \<in> populated_keys \<longrightarrow> truthy (fm_get b k)" by simp
  from ab e have eb: "k = ''entityType'' \<longrightarrow> fm_get b k \<noteq> JStr ''ComicCreator''" by auto
  from assms(2) k tb eb have "fm_get c k = fm_get b k"
    unfolding header_preserved_def by blast
  with ab show "fm_get c k = fm_get a k" by simp
next
  fix k xs
  assume k: "k \<in> list_keys" and a: "fm_get a k = JArr xs"
  from assms(1) k a obtain ys where b: "fm_get b k = JArr ys" and s1: "set xs \<subseteq> set ys"
    unfolding header_preserved_def by blast
  from assms(2) k b obtain zs where c: "fm_get c k = JArr zs" and s2: "set ys \<subseteq> set zs"
    unfolding header_preserved_def by blast
  from c s1 s2 show "\<exists>ys. fm_get c k = JArr ys \<and> set xs \<subseteq> set ys" by auto
next
  fix k
  assume k: "k \<in> list_keys" and t: "truthy (fm_get a k)" and n: "\<forall>xs. fm_get a k \<noteq> JArr xs"
  from assms(1) k t n have ab: "fm_get b k = fm_get a k"
    unfolding header_preserved_def by blast
  from assms(2) k t n ab have "fm_get c k = fm_get b k"
    unfolding header_preserved_def by simp
  with ab show "fm_get c k = fm_get a k" by simp
qed

lemma merged_trans: "merged a b \<Longrightarrow> merged b c \<Longrightarrow> merged a c"
  unfolding merged_def using header_preserved_trans by blast

lemma truthy_JArr: "fm_get fm k = JArr xs \<Longrightarrow> truthy (fm_get fm k)"
  by simp

lemma merged_set_falsy:
  assumes k: "k \<in> populated_keys \<union> list_keys" and f: "\<not> truthy (fm_get fm k)"
  shows "merged fm (fm_set k v fm)"
proof -
  have "header_preserved fm (fm_set k v fm)"
    unfolding header_preserved_def
  proof (intro conjI allI impI)
    fix k'
    assume "k' \<notin> insert ''modification date'' list_keys"
      and "k' \<in> populated_keys \<longrightarrow> truthy (fm_get fm k')"
    with k f have "k' \<noteq> k" by auto
    then show "fm_get (fm_set k v fm) k' = fm_get fm k'" by (simp add: fm_get_fm_set)
  next
    fix k' xs
    assume "fm_get fm k' = JArr xs"
    with f have n: "k' \<noteq> k" by auto
    with \<open>fm_get fm k' = JArr xs\<close> show "\<exists>ys. fm_get (fm_set k v fm) k' = JArr ys \<and> set xs \<subseteq> set ys"
      by (simp add: fm_get_fm_set)
  next
    fix k'
    assume "truthy (fm_get fm k')"
    with f have "k' \<noteq> k" by auto
    then show "fm_get (fm_set k v fm) k' = fm_get fm k'" by (simp add: fm_get_fm_set)
  qed
  moreover have "truthy (fm_get fm ''entityType'') \<longrightarrow> truthy (fm_get (fm_set k v fm) ''entityType'')"
    using f by (auto simp: fm_get_fm_set)
  ultimately show ?thesis by (simp add: merged_def distinct_fm_set)
qed

lemma merged_set_modified: "merged fm (fm_set ''modification date'' v fm)"
  unfolding merged_def header_preserved_def
  by (auto simp: fm_get_fm_set distinct_fm_set list_keys_def)

lemma merged_set_person:
  "fm_get fm ''entityType'' = JStr ''ComicCreator'' \<Longrightarrow> merged fm (fm_set ''entityType'' (JStr ''Person'') fm)"
  unfolding merged_def header_preserved_def
  by (auto simp: fm_get_fm_set distinct_fm_set list_keys_def)

lemma merged_set_list:
  "k \<in> list_keys \<Longrightarrow> fm_get fm k = JArr xs \<Longrightarrow> set xs \<subseteq> set ys \<Longrightarrow> merged fm (fm_set k (JArr ys) fm)"
  unfolding merged_def header_preserved_def
  by (auto simp: fm_get_fm_set distinct_fm_set list_keys_def)

lemma merged_set_if_falsy:
  "k \<in> populated_keys \<union> list_keys \<Longrightarrow> merged fm (fst (set_if_falsy k v (fm, ch)))"
  by (simp add: set_if_falsy_def merged_refl merged_set_falsy)

lemma merged_set_date_if_falsy:
  "k \<in> populated_keys \<union> list_keys \<Longrightarrow> merged fm (fst (set_date_if_falsy k info (fm, ch)))"
  by (simp add: set_date_if_falsy_def merged_refl merged_set_if_falsy split: option.splits)

lemma merged_mergeDetails: "merged fm (fst (mergeDetails en True personDetails fm))"
proof -
  define st1 where "st1 = (if \<not> truthy (fm_get fm ''entityType'') \<or> fm_get fm ''entityType'' = JStr ''ComicCreator''
                 then (fm_set ''entityType'' (JStr ''Person'') fm, True) else (fm, False))"
  define st2 where "st2 = set_if_falsy ''name'' (JStr (person_name personDetails)) st1"
  define st3 where "st3 = set_if_falsy ''comicVineId'' (JNum (person_id personDetails)) st2"
  define st4 where "st4 = set_if_falsy ''comicVineUrl'' (JStr (person_site_detail_url personDetails)) st3"
  define st6 where "st6 = (fm_set ''modification date'' (JStr (fetchedAt en)) (fst st4), snd st4)"
  define st7 where "st7 = set_date_if_falsy ''birthDate'' (parseCreatorDate (other_dates en) (person_birth personDetails)) st6"
  define st8 where "st8 = set_date_if_falsy ''deathDate'' (parseCreatorDate (other_dates en) (person_death_date personDetails)) st7"
  have r: "mergeDetails en True personDetails fm = st8"
    by (simp add: mergeDetails_def Let_def st8_def st7_def st6_def st4_def st3_def st2_def st1_def)
  have 1: "merged fm (fst st1)"
  proof (cases "truthy (fm_get fm ''entityType'')")
    case False
    then show ?thesis by (simp add: st1_def merged_set_falsy populated_keys_def)
  next
    case True
    then show ?thesis by (simp add: st1_def merged_refl merged_set_person)
  qed
  have 2: "merged (fst st1) (fst st2)"
    unfolding st2_def using merged_set_if_falsy[of "''name''" "fst st1" _ "snd st1"]
    by (simp add: populated_keys_def)
  have 3: "merged (fst st2) (fst st3)"
    unfolding st3_def using merged_set_if_falsy[of "''comicVineId''" "fst st2" _ "snd st2"]
    by (simp add: populated_keys_def)
  have 4: "merged (fst st3) (fst st4)"
    unfolding st4_def using merged_set_if_falsy[of "''comicVineUrl''" "fst st3" _ "snd st3"]
    by (simp add: populated_keys_def)
  have 6: "merged (fst st4) (fst st6)"
    by (simp add: st6_def merged_set_modified)
  have 7: "merged (fst st6) (fst st7)"
    unfolding st7_def using merged_set_date_if_falsy[of "''birthDate''" "fst st6" _ "snd st6"]
    by (simp add: populated_keys_def)
  have 8: "merged (fst st7) (fst st8)"
    unfolding st8_def using merged_set_date_if_falsy[of "''deathDate''" "fst st7" _ "snd st7"]
    by (simp add: populated_keys_def)
  show ?thesis unfolding r
    using merged_trans[OF 1 merged_trans[OF 2 merged_trans[OF 3 merged_trans[OF 4
          merged_trans[OF 6 merged_trans[OF 7 8]]]]]] .
qed

lemma fm_get_set_if_falsy_other:
  "k' \<noteq> k \<Longrightarrow> fm_get (fst (set_if_falsy k v st)) k' = fm_get (fst st) k'"
  by (cases st) (simp add: set_if_falsy_def fm_get_fm_set)

lemma fm_get_set_date_if_falsy_other:
  "k' \<noteq> k \<Longrightarrow> fm_get (fst (set_date_if_falsy k info st)) k' = fm_get (fst st) k'"
  by (cases info) (simp_all add: set_date_if_falsy_def fm_get_set_if_falsy_other)

lemma mergeDetails_retypes:
  assumes "fm_get fm ''entityType'' = JStr ''ComicCreator''"
  shows "fm_get (fst (mergeDetails en True personDetails fm)) ''entityType'' = JStr ''Person''"
  unfolding mergeDetails_def Let_def
  using assms
  by (simp add: fm_get_set_date_if_falsy_other fm_get_set_if_falsy_other fm_get_fm_set)

lemma truthy_set_if_falsy:
  "truthy (fm_get (fst st) k') \<Longrightarrow> truthy (fm_get (fst (set_if_falsy k v st)) k')"
  by (cases st) (auto simp: set_if_falsy_def fm_get_fm_set)

lemma truthy_set_date_if_falsy:
  "truthy (fm_get (fst st) k') \<Longrightarrow> truthy (fm_get (fst (set_date_if_falsy k info st)) k')"
  by (simp add: set_date_if_falsy_def truthy_set_if_falsy split: option.splits)

lemma entityType_mergeDetails:
  "truthy (fm_get (fst (mergeDetails en found personDetails fm)) ''entityType'')"
proof -
  define st1 where "st1 = (if \<not> truthy (fm_get fm ''entityType'') \<or> fm_get fm ''entityType'' = JStr ''ComicCreator''
                 then (fm_set ''entityType'' (JStr ''Person'') fm, True) else (fm, False))"
  have 1: "truthy (fm_get (fst st1) ''entityType'')"
    by (auto simp: st1_def fm_get_fm_set)
  show ?thesis
    unfolding mergeDetails_def Let_def st1_def[symmetric]
    by (intro truthy_set_date_if_falsy) 
       (auto simp: fm_get_fm_set intro!: truthy_set_if_falsy 1)
qed

lemma merged_mergeImage: "merged (fst st) (fst (fst (mergeImage cfg en personDetails (st, v))))"
proof -
  obtain fm ch where st: "st = (fm, ch)" by (cases st)
  have i: "merged fm (fst (set_if_falsy ''image'' x (fm, ch)))" for x
    by (rule merged_set_if_falsy) (simp add: populated_keys_def)
  show ?thesis unfolding st
    by (auto simp: mergeImage_def merged_refl i split: option.splits prod.splits)
qed

lemma merged_default_array: "k \<in> list_keys \<Longrightarrow> merged fm (default_array k fm)"
  by (simp add: default_array_def merged_refl merged_set_falsy)

lemma js_push_Inr: "js_push a x = Inr b \<Longrightarrow> \<exists>xs. a = JArr xs \<and> b = JArr (xs @ [x])"
  by (cases a) auto

lemma merged_ensureTag: "ensureTag t st = Inr st' \<Longrightarrow> merged (fst st) (fst st')"
  by (cases st)
     (auto simp: ensureTag_def merged_refl list_keys_def split: sum.splits bool.splits
           dest!: js_push_Inr intro!: merged_set_list)

lemma merged_ensureLists: "ensureLists st = Inr st' \<Longrightarrow> merged (fst st) (fst st')"
proof -
  assume a: "ensureLists st = Inr st'"
  obtain fm ch where st: "st = (fm, ch)" by (cases st)
  let ?fm3 = "default_array ''tags'' (default_array ''credits'' (default_array ''roles'' fm))"
  from a st obtain st1 where 1: "ensureTag ''person'' (?fm3, ch) = Inr st1"
    and 2: "ensureTag ''comic-creator'' st1 = Inr st'"
    by (auto simp: ensureLists_def split: sum.splits)
  have d: "merged x (default_array k x)" if "k \<in> list_keys" for k x
    using that by (rule merged_default_array)
  have m0: "merged fm ?fm3"
    by (rule merged_trans[OF d merged_trans[OF d d]]) (simp_all add: list_keys_def)
  have m1: "merged ?fm3 (fst st1)" using merged_ensureTag[OF 1] by simp
  have m2: "merged (fst st1) (fst st')" using 2 by (rule merged_ensureTag)
  show ?thesis using merged_trans[OF m0 merged_trans[OF m1 m2]] by (simp add: st)
qed

lemma merged_addRoleLink: "addRoleLink l st = Inr st' \<Longrightarrow> merged (fst st) (fst st')"
  by (cases st)
     (auto simp: addRoleLink_def merged_refl list_keys_def split: sum.splits bool.splits
           dest!: js_push_Inr intro!: merged_set_list)

lemma merged_addCredit: "addCredit l w st = Inr st' \<Longrightarrow> merged (fst st) (fst st')"
  by (cases st)
     (auto simp: addCredit_def merged_refl list_keys_def split: sum.splits bool.splits
           dest!: js_push_Inr intro!: merged_set_list)

lemma merged_addRole:
  "addRole cfg en ib r (st, v) = Inr (st', v') \<Longrightarrow> merged (fst st) (fst st')"
  by (auto simp: addRole_def Let_def merged_refl split: if_splits sum.splits prod.splits
           dest!: merged_addRoleLink merged_addCredit intro: merged_trans)

lemma merged_addRoles:
  "addRoles cfg en ib rs (st, v) = Inr (st', v') \<Longrightarrow> merged (fst st) (fst st')"
proof (induction rs arbitrary: st v)
  case Nil
  then show ?case by (simp add: merged_refl)
next
  case (Cons r rs)
  from Cons.prems obtain st1 v1 where 1: "addRole cfg en ib r (st, v) = Inr (st1, v1)"
    and 2: "addRoles cfg en ib rs (st1, v1) = Inr (st', v')"
    by (auto split: sum.splits)
  from merged_addRole[OF 1] Cons.IH[OF 2] show ?case by (rule merged_trans)
qed

lemma js_sort_Inr: "js_sort a = Inr b \<Longrightarrow> \<exists>xs. a = JArr xs \<and> b = JArr (sort_key js_to_string xs)"
  by (cases a) auto

lemma merged_sorted:
  "js_sort (fm_get fm ''roles'') = Inr roles \<Longrightarrow>
   merged fm (fm_set ''modification date'' (JStr t) (fm_set ''roles'' roles fm))"
proof -
  assume "js_sort (fm_get fm ''roles'') = Inr roles"
  then obtain xs where a: "fm_get fm ''roles'' = JArr xs" and b: "roles = JArr (sort_key js_to_string xs)"
    by (auto dest: js_sort_Inr)
  have "merged fm (fm_set ''roles'' roles fm)"
    unfolding b using a by (intro merged_set_list) (auto simp: list_keys_def)
  then show ?thesis by (blast intro: merged_trans merged_set_modified)
qed


subsection \<open>Updating an existing note\<close>

text \<open>A YAML mapping has no duplicate key.\<close>

definition wf_content :: "content \<Rightarrow> bool" where
  "wf_content c = (case c of Headed fm body \<Rightarrow> distinct (map fst fm) | Plain t \<Rightarrow> True)"

lemma findPersonNote_Some:
  assumes "distinct (map fst v)" "findPersonNote cfg v i n = Some (p, c)"
  shows "getAbstractFileByPath v p = Some (File c)"
proof (cases "find (\<lambda>(p, e). parent_path p = peopleFolder cfg \<and> cached_id_is i e) v")
  case None
  with assms(2) show ?thesis
    by (auto simp: findPersonNote_def split: option.splits entry.splits)
next
  case (Some pe)
  obtain q e where pe: "pe = (q, e)" by (cases pe)
  from Some pe have mem: "(q, e) \<in> set v" and "cached_id_is i e"
    by (auto simp: find_Some_iff in_set_conv_nth)
  then obtain fm b where e: "e = File (Headed fm b)"
    by (auto simp: cached_id_is_def split: entry.splits content.splits)
  from assms(2) Some pe e have "p = q" "c = Headed fm b"
    by (auto simp: findPersonNote_def split: option.splits entry.splits)
  with mem e assms(1) show ?thesis
    by (simp add: getAbstractFileByPath_def)
qed

lemma lookup_vault_modify:
  "getAbstractFileByPath (vault_modify v p c) q =
     (if q = p \<and> getAbstractFileByPath v p \<noteq> None then Some (File c) else getAbstractFileByPath v q)"
  unfolding getAbstractFileByPath_def vault_modify_def
  by (induction v) auto

lemma paths_vault_modify: "map fst (vault_modify v p c) = map fst v"
  by (induction v) (auto simp: vault_modify_def)

lemma downloadImage_appends: "downloadImage en v url folder fn = (r, v1) \<Longrightarrow> \<exists>new. v1 = v @ new"
proof -
  assume a: "downloadImage en v url folder fn = (r, v1)"
  obtain n0 where e: "ensureFolderExists v folder = v @ n0"
    using ensureFolderExists_appends by blast
  show ?thesis using a unfolding downloadImage_def Let_def e
    by (auto split: option.splits entry.splits sum.splits dest!: vault_create_Inr)
qed

lemma mergeImage_appends: "mergeImage cfg en d (st, v) = (st', v1) \<Longrightarrow> \<exists>new. v1 = v @ new"
  by (auto simp: mergeImage_def split: option.splits if_splits prod.splits dest: downloadImage_appends)

lemma addRole_appends: "addRole cfg en ib r (st, v) = Inr (st', v') \<Longrightarrow> \<exists>new. v' = v @ new"
  using getOrCreateRoleNote_appends[of cfg "roleCreatedAt en" r v]
  by (auto simp: addRole_def Let_def split: if_splits sum.splits prod.splits)

lemma addRoles_appends: "addRoles cfg en ib rs (st, v) = Inr (st', v') \<Longrightarrow> \<exists>new. v' = v @ new"
proof (induction rs arbitrary: st v)
  case Nil
  then show ?case by simp
next
  case (Cons r rs)
  from Cons.prems obtain st1 v1 where 1: "addRole cfg en ib r (st, v) = Inr (st1, v1)"
    and 2: "addRoles cfg en ib rs (st1, v1) = Inr (st', v')"
    by (auto split: sum.splits)
  from addRole_appends[OF 1] Cons.IH[OF 2] show ?case by auto
qed

lemma trimStart_idem: "trimStart (trimStart s) = trimStart s"
  unfolding trimStart_def by (induction s) auto

text \<open>The text of a note after its frontmatter block, and its parsed header.\<close>

definition raw_body :: "content \<Rightarrow> string" where
  "raw_body c = (case c of Headed fm body \<Rightarrow> body | Plain t \<Rightarrow> t)"

definition header_of :: "content \<Rightarrow> frontmatter" where
  "header_of c = fst (parseFrontmatter c)"

lemma body_parse: "trimStart (snd (parseFrontmatter c)) = trimStart (raw_body c)"
  by (cases c) (simp_all add: parseFrontmatter_def raw_body_def trimStart_idem)

lemma buildFrontmatter_typed:
  assumes "distinct (map fst fm)" "truthy (fm_get fm ''entityType'')"
  shows "\<exists>fm'. buildFrontmatter fm body = Headed fm' (trimStart body) \<and> (\<forall>k. fm_get fm' k = fm_get fm k)"
proof -
  let ?c = "filter (\<lambda>(k, v). v \<noteq> JUndefined) fm"
  have g: "\<And>k. fm_get ?c k = fm_get fm k" using assms(1) by (rule fm_get_clean)
  have "?c \<noteq> []"
  proof
    assume "?c = []"
    then have "fm_get ?c ''entityType'' = JUndefined" by (simp add: fm_get_def)
    with g[of "''entityType''"] assms(2) show False by simp
  qed
  then show ?thesis using g by (simp add: buildFrontmatter_def Let_def)
qed

lemma header_preserved_cong:
  "header_preserved a b \<Longrightarrow> (\<forall>k. fm_get c k = fm_get b k) \<Longrightarrow> header_preserved a c"
  by (simp add: header_preserved_def)

text \<open>
  Claim C5, as the code has it. When the upsert of one creator finds an existing Person
  note and completes, the note is either untouched or rewritten with: the old body
  without its leading white space; every header field at its old value, except
  \<open>modification date\<close>, which is set to the time of the write, an \<open>entityType\<close> of
  \<open>ComicCreator\<close>, which becomes \<open>Person\<close>, and a falsy value of one of the keys the upsert
  fills in or of a list field; and every element of the old list fields still listed.
\<close>

theorem processCreator_preserves:
  assumes wf: "distinct (map fst v)" "wf_content content"
    and found: "findPersonNote cfg v (uc_id creator) (uc_name creator) = Some (path, content)"
    and run: "processCreator cfg en issueBasename creator v = Inr v'"
  shows "getAbstractFileByPath v' path = Some (File content)
       \<or> (\<exists>fm'. getAbstractFileByPath v' path = Some (File (Headed fm' (trimStart (raw_body content))))
              \<and> header_preserved (header_of content) fm'
              \<and> (fm_get (header_of content) ''entityType'' = JStr ''ComicCreator'' \<longrightarrow>
                    fm_get fm' ''entityType'' = JStr ''Person'')
              \<and> fm_get fm' ''modification date'' = JStr (writtenAt en))"
proof -
  have at: "getAbstractFileByPath v path = Some (File content)"
    using wf(1) found by (rule findPersonNote_Some)
  let ?fm0 = "fst (parseFrontmatter content)" and ?body = "snd (parseFrontmatter content)"
  have d0: "distinct (map fst ?fm0)"
    using wf(2) by (cases content) (simp_all add: wf_content_def parseFrontmatter_def)
  show ?thesis
  proof (cases "getPersonDetails en (uc_api_detail_url creator)")
    case None
    with run have "v' = v" by (simp add: processCreator_def Let_def)
    with at show ?thesis by simp
  next
    case (Some d)
    obtain st v1 where mi: "mergeImage cfg en d (mergeDetails en True d ?fm0, v) = (st, v1)"
      by (cases "mergeImage cfg en d (mergeDetails en True d ?fm0, v)")
    from run Some found mi obtain st1 st2 v2 where el: "ensureLists st = Inr st1"
      and ar: "addRoles cfg en issueBasename (set_order (uc_roles creator)) (st1, v1) = Inr (st2, v2)"
      and wr: "writePerson cfg en creator (Some path) ?body (st2, v2) = Inr v'"
      by (auto simp: processCreator_def Let_def split: sum.splits prod.splits)
    obtain new1 where v1: "v1 = v @ new1" using mergeImage_appends[OF mi] by blast
    obtain new2 where v2: "v2 = v1 @ new2" using addRoles_appends[OF ar] by blast
    have at2: "getAbstractFileByPath v2 path = Some (File content)"
      using at by (simp add: v1 v2 lookup_append)
    have m1: "merged ?fm0 (fst (mergeDetails en True d ?fm0))" by (rule merged_mergeDetails)
    have m2: "merged (fst (mergeDetails en True d ?fm0)) (fst st)"
      using merged_mergeImage[of "mergeDetails en True d ?fm0" cfg en d v] mi by simp
    have m3: "merged (fst st) (fst st1)" using el by (rule merged_ensureLists)
    have m4: "merged (fst st1) (fst st2)" using ar by (rule merged_addRoles)
    have m24: "merged (fst (mergeDetails en True d ?fm0)) (fst st2)"
      using merged_trans[OF m2 merged_trans[OF m3 m4]] .
    have m: "merged ?fm0 (fst st2)" using m1 m24 by (rule merged_trans)
    have ty: "truthy (fm_get (fst st2) ''entityType'')"
      using entityType_mergeDetails[of en True d ?fm0] m2 m3 m4 by (simp add: merged_def)
    show ?thesis
    proof (cases "snd st2")
      case False
      with wr have "v' = v2" by (cases st2) (simp add: writePerson_def)
      with at2 show ?thesis by simp
    next
      case True
      from wr True obtain roles where so: "js_sort (fm_get (fst st2) ''roles'') = Inr roles"
        and v': "v' = vault_modify v2 path
                   (buildFrontmatter (fm_set ''modification date'' (JStr (writtenAt en)) (fm_set ''roles'' roles (fst st2))) ?body)"
        by (cases st2) (auto simp: writePerson_def Let_def split: sum.splits)
      let ?fmF = "fm_set ''modification date'' (JStr (writtenAt en)) (fm_set ''roles'' roles (fst st2))"
      have m5: "merged (fst st2) ?fmF" using so by (rule merged_sorted)
      have mF: "merged ?fm0 ?fmF" using m m5 by (rule merged_trans)
      have dF: "distinct (map fst ?fmF)" using mF d0 by (simp add: merged_def)
      have tF: "truthy (fm_get ?fmF ''entityType'')" using m5 ty by (simp add: merged_def)
      from buildFrontmatter_typed[OF dF tF, of ?body] obtain fm' where
        b: "buildFrontmatter ?fmF ?body = Headed fm' (trimStart ?body)" and g: "\<forall>k. fm_get fm' k = fm_get ?fmF k"
        by blast
      have "getAbstractFileByPath v' path = Some (File (Headed fm' (trimStart (raw_body content))))"
        using at2 by (simp add: v' b lookup_vault_modify body_parse)
      moreover have "header_preserved (header_of content) fm'"
        using mF g unfolding header_of_def merged_def by (blast intro: header_preserved_cong)
      moreover have "fm_get fm' ''entityType'' = JStr ''Person''"
        if cc: "fm_get (header_of content) ''entityType'' = JStr ''ComicCreator''"
      proof -
        have p: "fm_get (fst (mergeDetails en True d ?fm0)) ''entityType'' = JStr ''Person''"
          using cc unfolding header_of_def by (rule mergeDetails_retypes)
        have "header_preserved (fst (mergeDetails en True d ?fm0)) ?fmF"
          using merged_trans[OF m24 m5] by (simp add: merged_def)
        then have "fm_get ?fmF ''entityType'' = fm_get (fst (mergeDetails en True d ?fm0)) ''entityType''"
          unfolding header_preserved_def using p
          by (simp add: list_keys_def populated_keys_def)
        with p g show ?thesis by simp
      qed
      moreover have "fm_get fm' ''modification date'' = JStr (writtenAt en)"
        using g by (simp add: fm_get_fm_set)
      ultimately show ?thesis by blast
    qed
  qed
qed


subsection \<open>An import into a vault with a hand-written note\<close>

text \<open>
  Two creators of an issue, the answers of the API for them, and a vault whose people
  folder holds a note on the first that the user wrote under the earlier
  \<open>ComicCreator\<close> type, with an id and a rating of 0, an empty \<open>credits\<close> field and two
  blank lines before the text.
\<close>

definition claremont :: ComicVinePerson where
  "claremont = \<lparr>person_id = 40439, person_name = ''Chris Claremont'', person_birth = Some ''1950-11'',
     person_death_date = None, person_site_detail_url = ''https://comicvine.gamespot.com/chris-claremont/4040-40439/'',
     person_image_super_url = Some ''https://comicvine.gamespot.com/a/uploads/claremont.jpg''\<rparr>"

definition byrne :: ComicVinePerson where
  "byrne = \<lparr>person_id = 1789, person_name = ''John Byrne'', person_birth = Some ''1950'',
     person_death_date = None, person_site_detail_url = ''https://comicvine.gamespot.com/john-byrne/4040-1789/'',
     person_image_super_url = None\<rparr>"

definition env0 :: env where
  "env0 = \<lparr>getPersonDetails = (\<lambda>url. if url = ''api/person/40439'' then Some claremont
                                       else if url = ''api/person/1789'' then Some byrne else None),
            requestImage = (\<lambda>url. Some ''JPEG''),
            other_dates = no_other_formats,
            fetchedAt = ''2025-01-01T00:00:00.000Z'',
            writtenAt = ''2025-01-01T00:00:01.000Z'',
            roleCreatedAt = ''2025-01-01T00:00:00.500Z''\<rparr>"

definition credits0 :: "person_credit list" where
  "credits0 = [\<lparr>credit_id = 40439, credit_name = ''Chris Claremont'', credit_role = ''writer'', credit_api_detail_url = ''api/person/40439''\<rparr>,
               \<lparr>credit_id = 1789, credit_name = ''John Byrne'', credit_role = ''penciler, inker'', credit_api_detail_url = ''api/person/1789''\<rparr>]"

definition claremontNote :: content where
  "claremontNote =
     Headed [(''entityType'', JStr ''ComicCreator''), (''name'', JStr ''C. Claremont''),
             (''comicVineId'', JNum 0), (''rating'', JNum 0), (''credits'', JNull),
             (''modification date'', JStr ''2020-05-05T00:00:00.000Z'')]
            ''\<newline>\<newline>My notes on Claremont.\<newline>''"

definition vault0 :: vault where
  "vault0 = [(''Entities/People'', Folder), (''Entities/People/Chris Claremont.md'', File claremontNote)]"

definition claremontCredit :: unique_creator where
  "claremontCredit = \<lparr>uc_id = 40439, uc_name = ''Chris Claremont'', uc_api_detail_url = ''api/person/40439'', uc_roles = [''writer'']\<rparr>"

definition claremontUpdated :: content where
  "claremontUpdated =
     Headed [(''entityType'', JStr ''Person''), (''name'', JStr ''C. Claremont''),
             (''comicVineId'', JNum 40439), (''rating'', JNum 0),
             (''credits'', JArr [JObj [(''role'', JStr ''[[Writer (Role)]]''),
                                      (''work'', JStr ''[[Uncanny X-Men #141]]'')]]),
             (''modification date'', JStr ''2025-01-01T00:00:01.000Z''),
             (''comicVineUrl'', JStr ''https://comicvine.gamespot.com/chris-claremont/4040-40439/''),
             (''birthDate'', JObj [(''value'', JStr ''1950-11''), (''year'', JNum 1950), (''month'', JNum 11)]),
             (''roles'', JArr [JStr ''[[Writer (Role)]]'']),
             (''tags'', JArr [JStr ''person'', JStr ''comic-creator''])]
            ''My notes on Claremont.\<newline>''"

definition vault1 :: vault where
  "vault1 = [(''Entities/People'', Folder), (''Entities/People/Chris Claremont.md'', File claremontUpdated),
             (''Comics/Concepts'', Folder),
             (''Comics/Concepts/Writer (Role).md'',
              File (Headed (roleFrontmatter ''2025-01-01T00:00:00.500Z'' ''Writer'') (roleBody ''Writer'')))]"

lemma claremont_run:
  "processCreator DEFAULT_SETTINGS env0 ''Uncanny X-Men #141'' claremontCredit vault0 = Inr vault1"
  by code_simp

lemma claremont_found:
  "findPersonNote DEFAULT_SETTINGS vault0 (uc_id claremontCredit) (uc_name claremontCredit)
     = Some (''Entities/People/Chris Claremont.md'', claremontNote)"
  by code_simp

text \<open>The theorem of claim C5 at the hand-written note.\<close>

theorem processCreator_preserves_witness:
  "distinct (map fst vault0) \<and> wf_content claremontNote
   \<and> findPersonNote DEFAULT_SETTINGS vault0 (uc_id claremontCredit) (uc_name claremontCredit)
       = Some (''Entities/People/Chris Claremont.md'', claremontNote)
   \<and> processCreator DEFAULT_SETTINGS env0 ''Uncanny X-Men #141'' claremontCredit vault0 = Inr vault1
   \<and> (getAbstractFileByPath vault1 ''Entities/People/Chris Claremont.md'' = Some (File claremontNote)
      \<or> (\<exists>fm'. getAbstractFileByPath vault1 ''Entities/People/Chris Claremont.md''
                   = Some (File (Headed fm' (trimStart (raw_body claremontNote))))
             \<and> header_preserved (header_of claremontNote) fm'
             \<and> (fm_get (header_of claremontNote) ''entityType'' = JStr ''ComicCreator'' \<longrightarrow>
                   fm_get fm' ''entityType'' = JStr ''Person'')
             \<and> fm_get fm' ''modification date'' = JStr (writtenAt env0)))"
proof -
  have d: "distinct (map fst vault0)" by (simp add: vault0_def)
  have w: "wf_content claremontNote" by (simp add: wf_content_def claremontNote_def)
  from processCreator_preserves[OF d w claremont_found claremont_run]
  show ?thesis using d w claremont_found claremont_run by blast
qed

text \<open>
  Claim C5 as stated fails: the update of the hand-written note drops the two blank lines
  that open its body, replaces the \<open>entityType\<close> the note had, overwrites its
  \<open>modification date\<close>, and fills in the \<open>comicVineId\<close> and the \<open>credits\<close> that were present
  with a falsy value. The \<open>rating\<close> of 0, which the upsert does not fill in, is kept.
\<close>

theorem processCreator_rewrites_counterexample:
  "getAbstractFileByPath vault0 ''Entities/People/Chris Claremont.md'' =
     Some (File (Headed [(''entityType'', JStr ''ComicCreator''), (''name'', JStr ''C. Claremont''),
                         (''comicVineId'', JNum 0), (''rating'', JNum 0), (''credits'', JNull),
                         (''modification date'', JStr ''2020-05-05T00:00:00.000Z'')]
                        ''\<newline>\<newline>My notes on Claremont.\<newline>''))
   \<and> processCreator DEFAULT_SETTINGS env0 ''Uncanny X-Men #141'' claremontCredit vault0 = Inr vault1
   \<and> getAbstractFileByPath vault1 ''Entities/People/Chris Claremont.md'' = Some (File claremontUpdated)
   \<and> raw_body claremontUpdated = ''My notes on Claremont.\<newline>''
   \<and> fm_get (header_of claremontUpdated) ''entityType'' = JStr ''Person''
   \<and> fm_get (header_of claremontUpdated) ''modification date'' = JStr ''2025-01-01T00:00:01.000Z''
   \<and> fm_get (header_of claremontUpdated) ''comicVineId'' = JNum 40439
   \<and> fm_get (header_of claremontUpdated) ''credits''
       = JArr [JObj [(''role'', JStr ''[[Writer (Role)]]''), (''work'', JStr ''[[Uncanny X-Men #141]]'')]]
   \<and> fm_get (header_of claremontUpdated) ''rating'' = JNum 0"
  by code_simp


section \<open>Importing the same issue twice\<close>

subsection \<open>Credits and the growth of a vault\<close>

text \<open>
  The (role, work) pairs that the \<open>some\<close> test of the credit loop can match: the elements
  of \<open>credits\<close> that are objects with a string \<open>role\<close> and a string \<open>work\<close>. A header has
  no duplicate credit when it lists no such pair twice.
\<close>

fun credit_pair :: "jsval \<Rightarrow> (string \<times> string) option" where
  "credit_pair (JObj kv) =
     (case (fm_get kv ''role'', fm_get kv ''work'') of
        (JStr r, JStr w) \<Rightarrow> Some (r, w)
      | _ \<Rightarrow> None)"
| "credit_pair c = None"

definition credit_pairs :: "jsval list \<Rightarrow> (string \<times> string) list" where
  "credit_pairs cs = concat (map (\<lambda>c. case credit_pair c of Some rw \<Rightarrow> [rw] | None \<Rightarrow> []) cs)"

definition no_duplicate_credits :: "frontmatter \<Rightarrow> bool" where
  "no_duplicate_credits fm =
     (case fm_get fm ''credits'' of JArr cs \<Rightarrow> distinct (credit_pairs cs) | _ \<Rightarrow> True)"

text \<open>
  A vault is well formed when no path occurs twice and no header has a duplicate key.
\<close>

definition content_ok :: "content \<Rightarrow> bool" where
  "content_ok c = (case c of Headed fm body \<Rightarrow> no_duplicate_credits fm | Plain t \<Rightarrow> True)"

definition wf_vault :: "vault \<Rightarrow> bool" where
  "wf_vault v = (distinct (map fst v) \<and> list_all (\<lambda>(p, e). case e of File c \<Rightarrow> wf_content c | Folder \<Rightarrow> True) v)"

definition no_duplicate_credits_in :: "vault \<Rightarrow> bool" where
  "no_duplicate_credits_in v = list_all (\<lambda>(p, e). case e of File c \<Rightarrow> content_ok c | Folder \<Rightarrow> True) v"

text \<open>
  What every step of the engine does to a vault: paths are only appended; a folder stays
  a folder; a file stays a file, its header stays free of duplicate keys and of duplicate
  credits if it was, and a non-zero \<open>comicVineId\<close> in it is kept; a new file is free of
  both.
\<close>

definition content_evolves :: "content \<Rightarrow> content \<Rightarrow> bool" where
  "content_evolves c c' =
     (wf_content c \<longrightarrow>
        wf_content c' \<and> (content_ok c \<longrightarrow> content_ok c')
        \<and> (\<forall>n. n \<noteq> 0 \<longrightarrow> cached_id_is n (File c) \<longrightarrow> cached_id_is n (File c')))"

definition fresh_ok :: "entry \<Rightarrow> bool" where
  "fresh_ok e = (case e of File c \<Rightarrow> wf_content c \<and> content_ok c | Folder \<Rightarrow> True)"

definition evolves :: "vault \<Rightarrow> vault \<Rightarrow> bool" where
  "evolves v v' =
     ((\<exists>new. map fst v' = map fst v @ new)
      \<and> (distinct (map fst v) \<longrightarrow> distinct (map fst v'))
      \<and> (\<forall>p. getAbstractFileByPath v p = Some Folder \<longrightarrow> getAbstractFileByPath v' p = Some Folder)
      \<and> (\<forall>p c. getAbstractFileByPath v p = Some (File c) \<longrightarrow>
            (\<exists>c'. getAbstractFileByPath v' p = Some (File c') \<and> content_evolves c c'))
      \<and> (\<forall>p e. getAbstractFileByPath v p = None \<longrightarrow> getAbstractFileByPath v' p = Some e \<longrightarrow> fresh_ok e))"

lemma content_evolves_refl: "content_evolves c c"
  by (simp add: content_evolves_def)

lemma content_evolves_trans: "content_evolves a b \<Longrightarrow> content_evolves b c \<Longrightarrow> content_evolves a c"
  unfolding content_evolves_def by blast

lemma evolves_refl: "evolves v v"
  by (auto simp: evolves_def content_evolves_refl)

lemma fresh_ok_evolves: "fresh_ok (File c) \<Longrightarrow> content_evolves c c' \<Longrightarrow> fresh_ok (File c')"
  by (simp add: fresh_ok_def content_evolves_def)

lemma evolves_trans:
  assumes ab: "evolves a b" and bc: "evolves b c"
  shows "evolves a c"
  unfolding evolves_def
proof (intro conjI allI impI)
  from ab bc show "\<exists>new. map fst c = map fst a @ new"
    unfolding evolves_def by (metis append.assoc)
  show "distinct (map fst c)" if "distinct (map fst a)"
    using that ab bc unfolding evolves_def by blast
next
  fix p
  assume "getAbstractFileByPath a p = Some Folder"
  with ab have "getAbstractFileByPath b p = Some Folder" unfolding evolves_def by blast
  with bc show "getAbstractFileByPath c p = Some Folder" unfolding evolves_def by blast
next
  fix p x
  assume "getAbstractFileByPath a p = Some (File x)"
  with ab obtain y where y: "getAbstractFileByPath b p = Some (File y)" and xy: "content_evolves x y"
    unfolding evolves_def by blast
  from bc y obtain z where z: "getAbstractFileByPath c p = Some (File z)" and yz: "content_evolves y z"
    unfolding evolves_def by blast
  from z xy yz show "\<exists>c'. getAbstractFileByPath c p = Some (File c') \<and> content_evolves x c'"
    by (blast intro: content_evolves_trans)
next
  fix p e
  assume n: "getAbstractFileByPath a p = None" and s: "getAbstractFileByPath c p = Some e"
  show "fresh_ok e"
  proof (cases "getAbstractFileByPath b p")
    case None
    with bc s show ?thesis unfolding evolves_def by blast
  next
    case (Some eb)
    with ab n have fb: "fresh_ok eb" unfolding evolves_def by blast
    show ?thesis
    proof (cases eb)
      case Folder
      with Some bc have "getAbstractFileByPath c p = Some Folder" unfolding evolves_def by blast
      with s show ?thesis by (simp add: fresh_ok_def)
    next
      case (File y)
      with Some bc obtain z where "getAbstractFileByPath c p = Some (File z)" and "content_evolves y z"
        unfolding evolves_def by blast
      with s fb File show ?thesis by (auto intro: fresh_ok_evolves)
    qed
  qed
qed

lemma evolves_snoc:
  assumes "getAbstractFileByPath v p = None" "fresh_ok e"
  shows "evolves v (v @ [(p, e)])"
proof -
  have np: "p \<notin> fst ` set v"
    using assms(1) by (simp add: getAbstractFileByPath_def map_of_eq_None_iff)
  show ?thesis
    unfolding evolves_def
    using assms np by (auto simp: lookup_snoc content_evolves_refl split: option.splits if_splits)
qed

lemma evolves_ensureFolderExists: "evolves v (ensureFolderExists v p)"
  by (simp add: ensureFolderExists_def evolves_refl evolves_snoc fresh_ok_def)

lemma evolves_create:
  "vault_create v p c = Inr v' \<Longrightarrow> wf_content c \<Longrightarrow> content_ok c \<Longrightarrow> evolves v v'"
  by (auto dest!: vault_create_Inr intro!: evolves_snoc simp: fresh_ok_def)

lemma evolves_modify:
  assumes "getAbstractFileByPath v p = Some (File c)" "content_evolves c c'"
  shows "evolves v (vault_modify v p c')"
  unfolding evolves_def
  using assms
  by (auto simp: lookup_vault_modify paths_vault_modify content_evolves_refl)


subsection \<open>Role notes and images only add to a vault\<close>

lemma lookup_mem: "distinct (map fst v) \<Longrightarrow> (p, e) \<in> set v \<Longrightarrow> getAbstractFileByPath v p = Some e"
  by (simp add: getAbstractFileByPath_def)

lemma mem_lookup: "getAbstractFileByPath v p = Some e \<Longrightarrow> (p, e) \<in> set v"
  by (simp add: getAbstractFileByPath_def map_of_SomeD)

lemma wf_vaultD: "wf_vault v \<Longrightarrow> getAbstractFileByPath v p = Some (File c) \<Longrightarrow> wf_content c"
  by (auto simp: wf_vault_def list_all_iff dest!: mem_lookup)

lemma evolved_entry:
  assumes "wf_vault v" "evolves v v'" "(p, e) \<in> set v'"
  shows "case e of File c' \<Rightarrow>
           wf_content c' \<and> ((\<forall>c. getAbstractFileByPath v p = Some (File c) \<longrightarrow> content_ok c) \<longrightarrow> content_ok c')
         | Folder \<Rightarrow> True"
proof -
  have d: "distinct (map fst v')" using assms(1,2) by (simp add: wf_vault_def evolves_def)
  have l: "getAbstractFileByPath v' p = Some e" using d assms(3) by (rule lookup_mem)
  show ?thesis
  proof (cases "getAbstractFileByPath v p")
    case None
    with assms(2) l have "fresh_ok e" unfolding evolves_def by blast
    then show ?thesis by (simp add: fresh_ok_def split: entry.splits)
  next
    case (Some e0)
    show ?thesis
    proof (cases e0)
      case Folder
      with Some assms(2) have "getAbstractFileByPath v' p = Some Folder" unfolding evolves_def by blast
      with l show ?thesis by simp
    next
      case (File c)
      with Some assms(2) obtain c' where c': "getAbstractFileByPath v' p = Some (File c')"
        and ev: "content_evolves c c'"
        unfolding evolves_def by blast
      have "wf_content c" using assms(1) Some File by (auto intro: wf_vaultD)
      with ev c' l Some File show ?thesis by (auto simp: content_evolves_def)
    qed
  qed
qed

lemma wf_evolves: "wf_vault v \<Longrightarrow> evolves v v' \<Longrightarrow> wf_vault v'"
proof -
  assume a: "wf_vault v" "evolves v v'"
  have "distinct (map fst v')" using a by (simp add: wf_vault_def evolves_def)
  moreover have "list_all (\<lambda>(p, e). case e of File c \<Rightarrow> wf_content c | Folder \<Rightarrow> True) v'"
    unfolding list_all_iff
  proof
    fix x assume x: "x \<in> set v'"
    obtain p e where pe: "x = (p, e)" by (cases x)
    from evolved_entry[OF a, of p e] x pe
    show "case x of (p, e) \<Rightarrow> (case e of File c \<Rightarrow> wf_content c | Folder \<Rightarrow> True)"
      by (auto split: entry.splits)
  qed
  ultimately show ?thesis by (simp add: wf_vault_def)
qed

lemma credits_evolves:
  assumes "wf_vault v" "no_duplicate_credits_in v" "evolves v v'"
  shows "no_duplicate_credits_in v'"
  unfolding no_duplicate_credits_in_def list_all_iff
proof
  fix x assume x: "x \<in> set v'"
  obtain p e where pe: "x = (p, e)" by (cases x)
  have old: "\<forall>c. getAbstractFileByPath v p = Some (File c) \<longrightarrow> content_ok c"
    using assms(2) by (auto simp: no_duplicate_credits_in_def list_all_iff dest!: mem_lookup)
  from evolved_entry[OF assms(1,3), of p e] x pe old
  show "case x of (p, e) \<Rightarrow> (case e of File c \<Rightarrow> content_ok c | Folder \<Rightarrow> True)"
    by (auto split: entry.splits)
qed

lemma role_content_ok:
  "wf_content (buildFrontmatter (roleFrontmatter now cap) body)
   \<and> content_ok (buildFrontmatter (roleFrontmatter now cap) body)
   \<and> wf_content (buildFrontmatter (fm_set ''subConceptOf'' l (roleFrontmatter now cap)) body)
   \<and> content_ok (buildFrontmatter (fm_set ''subConceptOf'' l (roleFrontmatter now cap)) body)"
  by (simp add: buildFrontmatter_def roleFrontmatter_def wf_content_def content_ok_def
        no_duplicate_credits_def fm_get_def)

lemma getOrCreateRoleNote_evolves:
  "(getOrCreateRoleNote cfg now r v = Inr (p, v') \<longrightarrow> evolves v v')
   \<and> (getOrCreateRoleNote cfg now r v = Inl (e, v') \<longrightarrow> evolves v v')"
proof (induction cfg now r v arbitrary: p v' e rule: getOrCreateRoleNote.induct)
  case (1 cfg now roleName v)
  let ?v1 = "ensureFolderExists v (conceptsFolder cfg)"
  let ?fp = "roleFilePath cfg roleName"
  have v1: "evolves v ?v1" by (rule evolves_ensureFolderExists)
  show ?case
  proof (cases "getAbstractFileByPath ?v1 ?fp")
    case (Some f)
    have eq: "getOrCreateRoleNote cfg now roleName v = Inr (?fp, ?v1)"
      by (subst getOrCreateRoleNote.simps) (simp add: Let_def Some)
    show ?thesis using v1 by (auto simp add: eq)
  next
    case None
    show ?thesis
    proof (cases "js_index roleHierarchy (capitalizedRole roleName)")
      case (Own parent)
      note IH = 1[OF refl refl refl None Own]
      let ?c = "buildFrontmatter
                   (fm_set ''subConceptOf'' (JStr (''[['' @ basename (roleFilePath cfg parent) @ '']]''))
                      (roleFrontmatter now (capitalizedRole roleName)))
                   (roleBody (capitalizedRole roleName))"
      show ?thesis
      proof (cases "getOrCreateRoleNote cfg now parent ?v1")
        case (Inl ev)
        obtain e0 w where ev: "ev = (e0, w)" by (cases ev)
        have eq: "getOrCreateRoleNote cfg now roleName v = Inl (e0, w)"
          by (subst getOrCreateRoleNote.simps) (simp add: Let_def None Own Inl ev)
        from IH[of undefined w e0] Inl ev have "evolves ?v1 w" by auto
        with v1 have "evolves v w" by (rule evolves_trans)
        then show ?thesis by (auto simp add: eq)
      next
        case (Inr pw)
        obtain pp w where pw: "pw = (pp, w)" by (cases pw)
        from IH[of pp w undefined] Inr pw have "evolves ?v1 w" by auto
        with v1 have w: "evolves v w" by (rule evolves_trans)
        have pp: "pp = roleFilePath cfg parent"
          using getOrCreateRoleNote_appends[of cfg now parent ?v1 pp w] Inr pw by auto
        show ?thesis
        proof (cases "vault_create w ?fp ?c")
          case (Inl e1)
          have eq: "getOrCreateRoleNote cfg now roleName v = Inl (e1, w)"
            using Inl
            by (subst getOrCreateRoleNote.simps)
               (simp add: Let_def None Own \<open>getOrCreateRoleNote cfg now parent ?v1 = Inr pw\<close> pw pp)
          show ?thesis using w by (auto simp add: eq)
        next
          case (Inr w3)
          have eq: "getOrCreateRoleNote cfg now roleName v = Inr (?fp, w3)"
            using Inr
            by (subst getOrCreateRoleNote.simps)
               (simp add: Let_def None Own \<open>getOrCreateRoleNote cfg now parent ?v1 = Inr pw\<close> pw pp)
          have "evolves w w3" using Inr role_content_ok by (blast intro: evolves_create)
          with w have "evolves v w3" by (rule evolves_trans)
          then show ?thesis by (auto simp add: eq)
        qed
      qed
    next
      case (Inherited m)
      have eq: "getOrCreateRoleNote cfg now roleName v = Inl (TypeError, ?v1)"
        by (subst getOrCreateRoleNote.simps) (simp add: Let_def None Inherited)
      show ?thesis using v1 by (auto simp add: eq)
    next
      case Absent
      let ?c = "buildFrontmatter (roleFrontmatter now (capitalizedRole roleName))
                   (roleBody (capitalizedRole roleName))"
      show ?thesis
      proof (cases "vault_create ?v1 ?fp ?c")
        case (Inl e1)
        have eq: "getOrCreateRoleNote cfg now roleName v = Inl (e1, ?v1)"
          by (subst getOrCreateRoleNote.simps) (simp add: Let_def None Absent Inl)
        show ?thesis using v1 by (auto simp add: eq)
      next
        case (Inr w2)
        have eq: "getOrCreateRoleNote cfg now roleName v = Inr (?fp, w2)"
          by (subst getOrCreateRoleNote.simps) (simp add: Let_def None Absent Inr)
        have "evolves ?v1 w2" using Inr role_content_ok by (blast intro: evolves_create)
        with v1 have "evolves v w2" by (rule evolves_trans)
        then show ?thesis by (auto simp add: eq)
      qed
    qed
  qed
qed

lemma downloadImage_evolves: "downloadImage en v url folder fn = (r, v1) \<Longrightarrow> evolves v v1"
proof -
  assume a: "downloadImage en v url folder fn = (r, v1)"
  have e: "evolves v (ensureFolderExists v folder)" by (rule evolves_ensureFolderExists)
  have c: "evolves (ensureFolderExists v folder) w"
    if "vault_create (ensureFolderExists v folder) q (Plain d) = Inr w" for q d w
    using that by (rule evolves_create) (simp_all add: wf_content_def content_ok_def)
  show ?thesis using a e c unfolding downloadImage_def Let_def
    by (auto split: option.splits entry.splits sum.splits intro: evolves_trans)
qed

lemma mergeImage_evolves: "mergeImage cfg en d (st, v) = (st', v1) \<Longrightarrow> evolves v v1"
  by (auto simp: mergeImage_def evolves_refl split: option.splits if_splits prod.splits
           dest: downloadImage_evolves)

lemma addRole_evolves: "addRole cfg en ib r (st, v) = Inr (st', v') \<Longrightarrow> evolves v v'"
  using getOrCreateRoleNote_evolves[of cfg "roleCreatedAt en" r v]
  by (auto simp: addRole_def Let_def evolves_refl split: if_splits sum.splits prod.splits)

lemma addRoles_evolves: "addRoles cfg en ib rs (st, v) = Inr (st', v') \<Longrightarrow> evolves v v'"
proof (induction rs arbitrary: st v)
  case Nil
  then show ?case by (simp add: evolves_refl)
next
  case (Cons r rs)
  from Cons.prems obtain st1 v1 where 1: "addRole cfg en ib r (st, v) = Inr (st1, v1)"
    and 2: "addRoles cfg en ib rs (st1, v1) = Inr (st', v')"
    by (auto split: sum.splits)
  from addRole_evolves[OF 1] Cons.IH[OF 2] show ?case by (rule evolves_trans)
qed


subsection \<open>What the upsert does to a header\<close>

text \<open>
  Every phase of the upsert keeps the keys of the header distinct, keeps the credits free
  of duplicates, keeps a truthy \<open>entityType\<close> truthy and keeps a non-zero \<open>comicVineId\<close>;
  and it never clears the \<open>changed\<close> flag.
\<close>

definition upserted :: "frontmatter \<Rightarrow> frontmatter \<Rightarrow> bool" where
  "upserted fm fm' =
     ((distinct (map fst fm) \<longrightarrow> distinct (map fst fm'))
      \<and> (no_duplicate_credits fm \<longrightarrow> no_duplicate_credits fm')
      \<and> (truthy (fm_get fm ''entityType'') \<longrightarrow> truthy (fm_get fm' ''entityType''))
      \<and> (\<forall>n. n \<noteq> 0 \<longrightarrow> fm_get fm ''comicVineId'' = JNum n \<longrightarrow> fm_get fm' ''comicVineId'' = JNum n))"

lemma upserted_refl: "upserted fm fm"
  by (simp add: upserted_def)

lemma upserted_trans: "upserted a b \<Longrightarrow> upserted b c \<Longrightarrow> upserted a c"
  unfolding upserted_def by blast

lemma upserted_set_falsy:
  "k \<noteq> ''credits'' \<Longrightarrow> \<not> truthy (fm_get fm k) \<Longrightarrow> upserted fm (fm_set k v fm)"
  unfolding upserted_def no_duplicate_credits_def
  by (auto simp: fm_get_fm_set distinct_fm_set)

lemma upserted_set_other:
  "k \<noteq> ''credits'' \<Longrightarrow> k \<noteq> ''comicVineId'' \<Longrightarrow> k \<noteq> ''entityType'' \<Longrightarrow> upserted fm (fm_set k v fm)"
  unfolding upserted_def no_duplicate_credits_def
  by (auto simp: fm_get_fm_set distinct_fm_set)

lemma upserted_set_person: "upserted fm (fm_set ''entityType'' (JStr ''Person'') fm)"
  unfolding upserted_def no_duplicate_credits_def
  by (auto simp: fm_get_fm_set distinct_fm_set)

lemma upserted_set_credits:
  "(no_duplicate_credits fm \<longrightarrow> distinct (credit_pairs cs)) \<Longrightarrow> upserted fm (fm_set ''credits'' (JArr cs) fm)"
  unfolding upserted_def no_duplicate_credits_def
  by (auto simp: fm_get_fm_set distinct_fm_set)

lemma upserted_set_if_falsy: "k \<noteq> ''credits'' \<Longrightarrow> upserted fm (fst (set_if_falsy k v (fm, ch)))"
  by (simp add: set_if_falsy_def upserted_refl upserted_set_falsy)

lemma upserted_set_date_if_falsy:
  "k \<noteq> ''credits'' \<Longrightarrow> upserted fm (fst (set_date_if_falsy k info (fm, ch)))"
  by (simp add: set_date_if_falsy_def upserted_refl upserted_set_if_falsy split: option.splits)

lemma upserted_mergeDetails: "upserted fm (fst (mergeDetails en found personDetails fm))"
proof -
  define st1 where "st1 = (if \<not> truthy (fm_get fm ''entityType'') \<or> fm_get fm ''entityType'' = JStr ''ComicCreator''
                 then (fm_set ''entityType'' (JStr ''Person'') fm, True) else (fm, False))"
  define st2 where "st2 = set_if_falsy ''name'' (JStr (person_name personDetails)) st1"
  define st3 where "st3 = set_if_falsy ''comicVineId'' (JNum (person_id personDetails)) st2"
  define st4 where "st4 = set_if_falsy ''comicVineUrl'' (JStr (person_site_detail_url personDetails)) st3"
  define st5 where "st5 = (if \<not> found
                 then (fm_set ''creation date'' (JStr (fetchedAt en))
                         (fm_set ''tags'' (JArr [JStr ''person'', JStr ''comic-creator''])
                           (fm_set ''aliases'' (JArr []) (fst st4))), True)
                 else st4)"
  define st6 where "st6 = (fm_set ''modification date'' (JStr (fetchedAt en)) (fst st5), snd st5)"
  define st7 where "st7 = set_date_if_falsy ''birthDate'' (parseCreatorDate (other_dates en) (person_birth personDetails)) st6"
  define st8 where "st8 = set_date_if_falsy ''deathDate'' (parseCreatorDate (other_dates en) (person_death_date personDetails)) st7"
  have r: "mergeDetails en found personDetails fm = st8"
    by (simp add: mergeDetails_def Let_def st8_def st7_def st6_def st5_def st4_def st3_def st2_def st1_def)
  have 1: "upserted fm (fst st1)"
    by (auto simp: st1_def upserted_refl upserted_set_person)
  have 2: "upserted (fst st1) (fst st2)"
    unfolding st2_def using upserted_set_if_falsy[of "''name''" "fst st1" _ "snd st1"] by simp
  have 3: "upserted (fst st2) (fst st3)"
    unfolding st3_def using upserted_set_if_falsy[of "''comicVineId''" "fst st2" _ "snd st2"] by simp
  have 4: "upserted (fst st3) (fst st4)"
    unfolding st4_def using upserted_set_if_falsy[of "''comicVineUrl''" "fst st3" _ "snd st3"] by simp
  have 5: "upserted (fst st4) (fst st5)"
  proof (cases found)
    case True
    then show ?thesis by (simp add: st5_def upserted_refl)
  next
    case False
    have a: "upserted (fst st4) (fm_set ''aliases'' (JArr []) (fst st4))"
      by (rule upserted_set_other) simp_all
    have b: "upserted (fm_set ''aliases'' (JArr []) (fst st4))
               (fm_set ''tags'' (JArr [JStr ''person'', JStr ''comic-creator'']) (fm_set ''aliases'' (JArr []) (fst st4)))"
      by (rule upserted_set_other) simp_all
    have c: "upserted (fm_set ''tags'' (JArr [JStr ''person'', JStr ''comic-creator'']) (fm_set ''aliases'' (JArr []) (fst st4)))
               (fm_set ''creation date'' (JStr (fetchedAt en)) (fm_set ''tags'' (JArr [JStr ''person'', JStr ''comic-creator'']) (fm_set ''aliases'' (JArr []) (fst st4))))"
      by (rule upserted_set_other) simp_all
    from False show ?thesis using upserted_trans[OF a upserted_trans[OF b c]] by (simp add: st5_def)
  qed
  have 6: "upserted (fst st5) (fst st6)"
    by (simp add: st6_def upserted_set_other)
  have 7: "upserted (fst st6) (fst st7)"
    unfolding st7_def using upserted_set_date_if_falsy[of "''birthDate''" "fst st6" _ "snd st6"] by simp
  have 8: "upserted (fst st7) (fst st8)"
    unfolding st8_def using upserted_set_date_if_falsy[of "''deathDate''" "fst st7" _ "snd st7"] by simp
  show ?thesis unfolding r
    using upserted_trans[OF 1 upserted_trans[OF 2 upserted_trans[OF 3 upserted_trans[OF 4
          upserted_trans[OF 5 upserted_trans[OF 6 upserted_trans[OF 7 8]]]]]]] .
qed

lemma changed_set_if_falsy: "snd st \<Longrightarrow> snd (set_if_falsy k val st)"
  by (cases st) (simp add: set_if_falsy_def)

lemma changed_set_date_if_falsy: "snd st \<Longrightarrow> snd (set_date_if_falsy k info st)"
  by (cases info) (simp_all add: set_date_if_falsy_def changed_set_if_falsy)

lemma changed_mergeDetails_new: "snd (mergeDetails en False personDetails fm)"
  unfolding mergeDetails_def Let_def
  by (intro changed_set_date_if_falsy) simp

lemma upserted_mergeImage: "upserted (fst st) (fst (fst (mergeImage cfg en personDetails (st, v))))"
  by (cases st)
     (auto simp: mergeImage_def upserted_refl upserted_set_if_falsy split: option.splits prod.splits)

lemma changed_mergeImage: "snd st \<Longrightarrow> snd (fst (mergeImage cfg en personDetails (st, v)))"
  by (cases st)
     (auto simp: mergeImage_def set_if_falsy_def split: option.splits prod.splits)

lemma upserted_default_array:
  "upserted fm (default_array k fm)"
proof (cases "k = ''credits''")
  case True
  then show ?thesis
    by (auto simp: default_array_def upserted_refl credit_pairs_def intro!: upserted_set_credits)
next
  case False
  then show ?thesis by (simp add: default_array_def upserted_refl upserted_set_falsy)
qed

lemma ensureTag_cases:
  "ensureTag t (fm, ch) = Inr st' \<Longrightarrow> st' = (fm, ch) \<or> (\<exists>tags. st' = (fm_set ''tags'' tags fm, True))"
  by (auto simp: ensureTag_def split: sum.splits bool.splits)

lemma upserted_ensureTag:
  assumes "ensureTag t st = Inr st'"
  shows "upserted (fst st) (fst st') \<and> (snd st \<longrightarrow> snd st')"
proof -
  obtain fm ch where st: "st = (fm, ch)" by (cases st)
  from ensureTag_cases[OF assms[unfolded st]] show ?thesis
  proof
    assume "st' = (fm, ch)"
    then show ?thesis by (simp add: st upserted_refl)
  next
    assume "\<exists>tags. st' = (fm_set ''tags'' tags fm, True)"
    then obtain tags where "st' = (fm_set ''tags'' tags fm, True)" by blast
    then show ?thesis by (simp add: st upserted_set_other)
  qed
qed

lemma upserted_ensureLists:
  assumes a: "ensureLists st = Inr st'"
  shows "upserted (fst st) (fst st') \<and> (snd st \<longrightarrow> snd st')"
proof -
  obtain fm ch where st: "st = (fm, ch)" by (cases st)
  let ?fm3 = "default_array ''tags'' (default_array ''credits'' (default_array ''roles'' fm))"
  from a st obtain st1 where 1: "ensureTag ''person'' (?fm3, ch) = Inr st1"
    and 2: "ensureTag ''comic-creator'' st1 = Inr st'"
    by (auto simp: ensureLists_def split: sum.splits)
  have u0: "upserted fm ?fm3"
    by (rule upserted_trans[OF upserted_default_array upserted_trans[OF upserted_default_array upserted_default_array]])
  from upserted_ensureTag[OF 1] have u1: "upserted ?fm3 (fst st1)" and c1: "ch \<longrightarrow> snd st1"
    by simp_all
  from upserted_ensureTag[OF 2] have u2: "upserted (fst st1) (fst st')" and c2: "snd st1 \<longrightarrow> snd st'"
    by simp_all
  have "upserted fm (fst st')" using upserted_trans[OF u0 upserted_trans[OF u1 u2]] .
  with c1 c2 show ?thesis by (simp add: st)
qed

lemma addRoleLink_cases:
  "addRoleLink l (fm, ch) = Inr st' \<Longrightarrow> st' = (fm, ch) \<or> (\<exists>roles. st' = (fm_set ''roles'' roles fm, True))"
  by (auto simp: addRoleLink_def split: sum.splits bool.splits)

lemma upserted_addRoleLink:
  assumes "addRoleLink l st = Inr st'"
  shows "upserted (fst st) (fst st') \<and> (snd st \<longrightarrow> snd st')"
proof -
  obtain fm ch where st: "st = (fm, ch)" by (cases st)
  from addRoleLink_cases[OF assms[unfolded st]] show ?thesis
  proof
    assume "st' = (fm, ch)"
    then show ?thesis by (simp add: st upserted_refl)
  next
    assume "\<exists>roles. st' = (fm_set ''roles'' roles fm, True)"
    then obtain roles where "st' = (fm_set ''roles'' roles fm, True)" by blast
    then show ?thesis by (simp add: st upserted_set_other)
  qed
qed

lemma credit_matches_False:
  "credit_matches c r w = Inr False \<Longrightarrow> credit_pair c \<noteq> Some (r, w)"
  by (cases c) (auto split: jsval.splits)

lemma some_credit_False: "some_credit cs r w = Inr False \<Longrightarrow> (r, w) \<notin> set (credit_pairs cs)"
proof (induction cs)
  case Nil
  then show ?case by (simp add: credit_pairs_def)
next
  case (Cons c cs)
  from Cons.prems have 1: "credit_matches c r w = Inr False" and 2: "some_credit cs r w = Inr False"
    by (auto split: sum.splits bool.splits)
  from credit_matches_False[OF 1] Cons.IH[OF 2] show ?case
    by (auto simp: credit_pairs_def split: option.splits)
qed

lemma credit_pairs_snoc:
  "credit_pairs (cs @ [JObj [(''role'', JStr r), (''work'', JStr w)]]) = credit_pairs cs @ [(r, w)]"
  by (simp add: credit_pairs_def fm_get_def)

lemma upserted_addCredit: "addCredit l w st = Inr st' \<Longrightarrow> upserted (fst st) (fst st') \<and> (snd st \<longrightarrow> snd st')"
proof -
  assume a: "addCredit l w st = Inr st'"
  obtain fm ch where st: "st = (fm, ch)" by (cases st)
  show ?thesis
  proof (cases "js_some_credit (fm_get fm ''credits'') l w")
    case (Inl e)
    with a st show ?thesis by (simp add: addCredit_def)
  next
    case (Inr b)
    show ?thesis
    proof (cases b)
      case True
      with a st Inr show ?thesis by (auto simp: addCredit_def upserted_refl)
    next
      case False
      from Inr False obtain cs where cs: "fm_get fm ''credits'' = JArr cs" and sc: "some_credit cs l w = Inr False"
        by (cases "fm_get fm ''credits''") auto
      from a st Inr False cs have st': "st' = (fm_set ''credits'' (JArr (cs @ [JObj [(''role'', JStr l), (''work'', JStr w)]])) fm, True)"
        by (auto simp: addCredit_def)
      have "no_duplicate_credits fm \<longrightarrow> distinct (credit_pairs (cs @ [JObj [(''role'', JStr l), (''work'', JStr w)]]))"
        using some_credit_False[OF sc] cs by (simp add: credit_pairs_snoc no_duplicate_credits_def)
      then show ?thesis unfolding st' st by (simp add: upserted_set_credits)
    qed
  qed
qed

lemma upserted_addRole:
  assumes "addRole cfg en ib r (st, v) = Inr (st', v')"
  shows "upserted (fst st) (fst st') \<and> (snd st \<longrightarrow> snd st')"
proof (cases "r = []")
  case True
  with assms show ?thesis by (simp add: addRole_def upserted_refl)
next
  case False
  with assms obtain rp v1 st1 where
    1: "addRoleLink (''[['' @ basename rp @ '']]'') st = Inr st1"
    and 2: "addCredit (''[['' @ basename rp @ '']]'') (''[['' @ ib @ '']]'') st1 = Inr st'"
    by (auto simp: addRole_def Let_def split: sum.splits prod.splits)
  from upserted_addRoleLink[OF 1] upserted_addCredit[OF 2] show ?thesis
    using upserted_trans by blast
qed

lemma upserted_addRoles:
  "addRoles cfg en ib rs (st, v) = Inr (st', v') \<Longrightarrow> upserted (fst st) (fst st') \<and> (snd st \<longrightarrow> snd st')"
proof (induction rs arbitrary: st v)
  case Nil
  then show ?case by (simp add: upserted_refl)
next
  case (Cons r rs)
  from Cons.prems obtain st1 v1 where 1: "addRole cfg en ib r (st, v) = Inr (st1, v1)"
    and 2: "addRoles cfg en ib rs (st1, v1) = Inr (st', v')"
    by (auto split: sum.splits)
  from upserted_addRole[OF 1] Cons.IH[OF 2] show ?case using upserted_trans by blast
qed

lemma upserted_sorted:
  "upserted fm (fm_set ''modification date'' (JStr t) (fm_set ''roles'' roles fm))"
  by (rule upserted_trans[OF upserted_set_other upserted_set_other]) simp_all


subsection \<open>One creator\<close>

lemma buildFrontmatter_clean:
  assumes "distinct (map fst fm)" "truthy (fm_get fm ''entityType'')"
  shows "buildFrontmatter fm body = Headed (filter (\<lambda>(k, v). v \<noteq> JUndefined) fm) (trimStart body)"
proof -
  let ?c = "filter (\<lambda>(k, v). v \<noteq> JUndefined) fm"
  have g: "fm_get ?c ''entityType'' = fm_get fm ''entityType''" using assms(1) by (rule fm_get_clean)
  have "?c \<noteq> []"
  proof
    assume "?c = []"
    then have "fm_get ?c ''entityType'' = JUndefined" by (simp add: fm_get_def)
    with g assms(2) show False by simp
  qed
  then show ?thesis by (simp add: buildFrontmatter_def Let_def)
qed

lemma person_content:
  assumes d: "distinct (map fst fm)" and t: "truthy (fm_get fm ''entityType'')"
  shows "wf_content (buildFrontmatter fm body)"
    and "no_duplicate_credits fm \<Longrightarrow> content_ok (buildFrontmatter fm body)"
    and "fm_get fm ''comicVineId'' = JNum n \<Longrightarrow> cached_id_is n (File (buildFrontmatter fm body))"
proof -
  note b = buildFrontmatter_clean[OF d t, of body]
  show "wf_content (buildFrontmatter fm body)"
    using d by (simp add: b wf_content_def distinct_clean)
  show "content_ok (buildFrontmatter fm body)" if "no_duplicate_credits fm"
    using that by (simp add: b content_ok_def no_duplicate_credits_def fm_get_clean[OF d])
  show "cached_id_is n (File (buildFrontmatter fm body))" if "fm_get fm ''comicVineId'' = JNum n"
    using that by (simp add: b cached_id_is_def fm_get_clean[OF d])
qed

lemma truthy_upserted: "upserted a b \<Longrightarrow> truthy (fm_get a ''entityType'') \<Longrightarrow> truthy (fm_get b ''entityType'')"
  by (simp add: upserted_def)

lemma pipeline:
  assumes mi: "mergeImage cfg en d (mergeDetails en found d fm0, v) = (st, v1)"
    and el: "ensureLists st = Inr st1"
    and ar: "addRoles cfg en ib rs (st1, v1) = Inr (st2, v2)"
  shows "upserted fm0 (fm_set ''modification date'' (JStr t) (fm_set ''roles'' roles (fst st2)))"
    and "truthy (fm_get (fm_set ''modification date'' (JStr t) (fm_set ''roles'' roles (fst st2))) ''entityType'')"
    and "found = False \<Longrightarrow> snd st2"
proof -
  have u1: "upserted fm0 (fst (mergeDetails en found d fm0))" by (rule upserted_mergeDetails)
  have u2: "upserted (fst (mergeDetails en found d fm0)) (fst st)"
    using upserted_mergeImage[of "mergeDetails en found d fm0" cfg en d v] mi by simp
  have u3: "upserted (fst st) (fst st1)" using upserted_ensureLists[OF el] by simp
  have u4: "upserted (fst st1) (fst st2)" using upserted_addRoles[OF ar] by simp
  have u5: "upserted (fst st2) (fm_set ''modification date'' (JStr t) (fm_set ''roles'' roles (fst st2)))"
    by (rule upserted_sorted)
  show "upserted fm0 (fm_set ''modification date'' (JStr t) (fm_set ''roles'' roles (fst st2)))"
    using upserted_trans[OF u1 upserted_trans[OF u2 upserted_trans[OF u3 upserted_trans[OF u4 u5]]]] .
  have "truthy (fm_get (fst (mergeDetails en found d fm0)) ''entityType'')"
    by (rule entityType_mergeDetails)
  then show "truthy (fm_get (fm_set ''modification date'' (JStr t) (fm_set ''roles'' roles (fst st2))) ''entityType'')"
    using upserted_trans[OF u2 upserted_trans[OF u3 upserted_trans[OF u4 u5]]] by (rule truthy_upserted[rotated])
  show "snd st2" if "found = False"
  proof -
    have "snd (mergeDetails en found d fm0)" using that by (simp add: changed_mergeDetails_new)
    then have "snd st" using changed_mergeImage[of "mergeDetails en found d fm0" cfg en d v] mi by simp
    then have "snd st1" using upserted_ensureLists[OF el] by simp
    then show ?thesis using upserted_addRoles[OF ar] by simp
  qed
qed

lemma parsed_header:
  "wf_content c \<Longrightarrow> distinct (map fst (fst (parseFrontmatter c)))"
  "content_ok c \<Longrightarrow> no_duplicate_credits (fst (parseFrontmatter c))"
  "cached_id_is n (File c) \<Longrightarrow> fm_get (fst (parseFrontmatter c)) ''comicVineId'' = JNum n"
  by (cases c; simp add: wf_content_def content_ok_def parseFrontmatter_def cached_id_is_def
        no_duplicate_credits_def fm_get_def)+

lemma writePerson_Inr:
  assumes "writePerson cfg en creator pf body ((fm, True), v) = Inr v'"
  shows "\<exists>roles. js_sort (fm_get fm ''roles'') = Inr roles
           \<and> (case pf of
                 Some path \<Rightarrow> v' = vault_modify v path
                   (buildFrontmatter (fm_set ''modification date'' (JStr (writtenAt en)) (fm_set ''roles'' roles fm)) body)
               | None \<Rightarrow> vault_create v (personPath cfg (uc_name creator))
                   (buildFrontmatter (fm_set ''modification date'' (JStr (writtenAt en)) (fm_set ''roles'' roles fm)) body) = Inr v')"
  using assms by (cases pf) (auto simp: writePerson_def Let_def split: sum.splits)

lemma processCreator_evolves:
  assumes wf: "wf_vault v"
    and run: "processCreator cfg en ib creator v = Inr v'"
  shows "evolves v v'"
proof (cases "getPersonDetails en (uc_api_detail_url creator)")
  case None
  with run have "v' = v" by (simp add: processCreator_def Let_def)
  then show ?thesis by (simp add: evolves_refl)
next
  case (Some d)
  define found where "found = findPersonNote cfg v (uc_id creator) (uc_name creator)"
  define parsed where "parsed = (case found of Some (path, c) \<Rightarrow> parseFrontmatter c
                    | None \<Rightarrow> ([], ''# '' @ uc_name creator @ [CHR 0x0A, CHR 0x0A]))"
  obtain st v1 where mi: "mergeImage cfg en d (mergeDetails en (found \<noteq> None) d (fst parsed), v) = (st, v1)"
    by (cases "mergeImage cfg en d (mergeDetails en (found \<noteq> None) d (fst parsed), v)")
  from run Some mi obtain st1 st2 v2 where el: "ensureLists st = Inr st1"
    and ar: "addRoles cfg en ib (set_order (uc_roles creator)) (st1, v1) = Inr (st2, v2)"
    and wr: "writePerson cfg en creator (map_option fst found) (snd parsed) (st2, v2) = Inr v'"
    by (auto simp: processCreator_def Let_def found_def parsed_def split: sum.splits prod.splits)
  have e1: "evolves v v1" using mi by (rule mergeImage_evolves)
  have e2: "evolves v1 v2" using ar by (rule addRoles_evolves)
  have e12: "evolves v v2" using e1 e2 by (rule evolves_trans)
  have "evolves v2 v'"
  proof (cases "snd st2")
    case False
    with wr have "v' = v2" by (cases st2) (simp add: writePerson_def)
    then show ?thesis by (simp add: evolves_refl)
  next
    case True
    obtain fm2 where st2: "st2 = (fm2, True)" using True by (cases st2) simp
    from writePerson_Inr[OF wr[unfolded st2]] obtain roles where so: "js_sort (fm_get fm2 ''roles'') = Inr roles"
      and w: "(case map_option fst found of
                 Some path \<Rightarrow> v' = vault_modify v2 path
                   (buildFrontmatter (fm_set ''modification date'' (JStr (writtenAt en)) (fm_set ''roles'' roles fm2)) (snd parsed))
               | None \<Rightarrow> vault_create v2 (personPath cfg (uc_name creator))
                   (buildFrontmatter (fm_set ''modification date'' (JStr (writtenAt en)) (fm_set ''roles'' roles fm2)) (snd parsed)) = Inr v')"
      by blast
    have f2: "fst st2 = fm2" by (simp add: st2)
    let ?fmF = "fm_set ''modification date'' (JStr (writtenAt en)) (fm_set ''roles'' roles fm2)"
    let ?new = "buildFrontmatter ?fmF (snd parsed)"
    note p1 = pipeline(1)[OF mi el ar, where t = "writtenAt en" and roles = roles, unfolded f2]
    note p2 = pipeline(2)[OF mi el ar, where t = "writtenAt en" and roles = roles, unfolded f2]
    show ?thesis
    proof (cases found)
      case None
      then have "fst parsed = []" by (simp add: parsed_def)
      with p1 have dF: "distinct (map fst ?fmF)" and nF: "no_duplicate_credits ?fmF"
        by (simp_all add: upserted_def no_duplicate_credits_def fm_get_def)
      from w None have c: "vault_create v2 (personPath cfg (uc_name creator)) ?new = Inr v'"
        by simp
      from c person_content(1)[OF dF p2] person_content(2)[OF dF p2 nF]
      show ?thesis by (rule evolves_create)
    next
      case (Some pc)
      obtain path content where pc: "pc = (path, content)" by (cases pc)
      from wf have dv: "distinct (map fst v)" by (simp add: wf_vault_def)
      have at: "getAbstractFileByPath v path = Some (File content)"
        using dv Some pc by (auto intro: findPersonNote_Some simp: found_def)
      obtain new1 where n1: "v1 = v @ new1" using mergeImage_appends[OF mi] by blast
      obtain new2 where n2: "v2 = v1 @ new2" using addRoles_appends[OF ar] by blast
      have at2: "getAbstractFileByPath v2 path = Some (File content)"
        using at by (simp add: n1 n2 lookup_append)
      have fm0: "fst parsed = fst (parseFrontmatter content)" using Some pc by (simp add: parsed_def)
      have ce2: "content_evolves content ?new"
        unfolding content_evolves_def
      proof (intro impI conjI allI)
        assume wc: "wf_content content"
        from parsed_header(1)[OF wc] p1 have dF: "distinct (map fst ?fmF)"
          by (simp add: fm0 upserted_def)
        show "wf_content ?new" using dF p2 by (rule person_content(1))
        show "content_ok ?new" if "content_ok content"
          using parsed_header(2)[OF that] p1 person_content(2)[OF dF p2]
          by (simp add: fm0 upserted_def)
        show "cached_id_is n (File ?new)" if "n \<noteq> 0" "cached_id_is n (File content)" for n
          using parsed_header(3)[OF that(2)] that(1) p1 person_content(3)[OF dF p2]
          by (simp add: fm0 upserted_def)
      qed
      have "v' = vault_modify v2 path ?new" using w Some pc by simp
      then show ?thesis using at2 ce2 by (simp add: evolves_modify)
    qed
  qed
  with e12 show ?thesis by (rule evolves_trans)
qed


subsection \<open>What the first import leaves in place\<close>

lemma present_iff: "getAbstractFileByPath v p \<noteq> None \<longleftrightarrow> p \<in> set (map fst v)"
  by (simp add: getAbstractFileByPath_def map_of_eq_None_iff)

lemma present_evolves:
  "evolves v v' \<Longrightarrow> getAbstractFileByPath v p \<noteq> None \<Longrightarrow> getAbstractFileByPath v' p \<noteq> None"
proof -
  assume e: "evolves v v'" and p: "getAbstractFileByPath v p \<noteq> None"
  from e obtain new where "map fst v' = map fst v @ new" unfolding evolves_def by blast
  then have "set (map fst v) \<subseteq> set (map fst v')" by simp
  with p show ?thesis unfolding present_iff by blast
qed

lemma find_None: "find P xs = None \<longleftrightarrow> (\<forall>x\<in>set xs. \<not> P x)"
  by (induction xs) auto

lemma find_SomeD: "find P xs = Some x \<Longrightarrow> P x \<and> x \<in> set xs"
  by (induction xs) (auto split: if_splits)

lemma cached_id_is_File: "cached_id_is n e \<Longrightarrow> \<exists>fm b. e = File (Headed fm b)"
  by (auto simp: cached_id_is_def split: entry.splits content.splits)

lemma findPersonNote_iff:
  "findPersonNote cfg v n name \<noteq> None \<longleftrightarrow>
     getAbstractFileByPath v (peopleFolder cfg) = Some Folder
     \<and> ((\<exists>q e. (q, e) \<in> set v \<and> parent_path q = peopleFolder cfg \<and> cached_id_is n e)
        \<or> (\<exists>c. getAbstractFileByPath v (personPath cfg name) = Some (File c)))"
proof (cases "getAbstractFileByPath v (peopleFolder cfg) = Some Folder")
  case False
  then show ?thesis
    by (auto simp: findPersonNote_def split: option.splits entry.splits)
next
  case True
  show ?thesis
  proof (cases "find (\<lambda>(p, e). parent_path p = peopleFolder cfg \<and> cached_id_is n e) v")
    case None
    then have no: "\<not> (\<exists>q e. (q, e) \<in> set v \<and> parent_path q = peopleFolder cfg \<and> cached_id_is n e)"
      by (auto simp: find_None)
    show ?thesis using True None no
      by (auto simp: findPersonNote_def split: option.splits entry.splits)
  next
    case (Some qe)
    obtain q e where qe: "qe = (q, e)" by (cases qe)
    from find_SomeD[OF Some] qe have m: "(q, e) \<in> set v" "parent_path q = peopleFolder cfg" "cached_id_is n e"
      by auto
    from cached_id_is_File[OF m(3)] obtain fm b where e: "e = File (Headed fm b)" by blast
    have "findPersonNote cfg v n name \<noteq> None"
      using True Some qe e by (simp add: findPersonNote_def)
    with True m show ?thesis by blast
  qed
qed

lemma findPersonNote_evolves:
  assumes wf: "wf_vault v" and ev: "evolves v v'" and n: "n \<noteq> 0"
    and f: "findPersonNote cfg v n name \<noteq> None"
  shows "findPersonNote cfg v' n name \<noteq> None"
proof -
  from f[unfolded findPersonNote_iff] have folder: "getAbstractFileByPath v (peopleFolder cfg) = Some Folder"
    and alt: "(\<exists>q e. (q, e) \<in> set v \<and> parent_path q = peopleFolder cfg \<and> cached_id_is n e)
        \<or> (\<exists>c. getAbstractFileByPath v (personPath cfg name) = Some (File c))"
    by blast+
  from ev folder have folder': "getAbstractFileByPath v' (peopleFolder cfg) = Some Folder"
    unfolding evolves_def by blast
  from alt have "(\<exists>q e. (q, e) \<in> set v' \<and> parent_path q = peopleFolder cfg \<and> cached_id_is n e)
        \<or> (\<exists>c. getAbstractFileByPath v' (personPath cfg name) = Some (File c))"
  proof
    assume "\<exists>q e. (q, e) \<in> set v \<and> parent_path q = peopleFolder cfg \<and> cached_id_is n e"
    then obtain q e where m: "(q, e) \<in> set v" "parent_path q = peopleFolder cfg" "cached_id_is n e"
      by blast
    from cached_id_is_File[OF m(3)] obtain fm b where e: "e = File (Headed fm b)" by blast
    from wf have dv: "distinct (map fst v)" by (simp add: wf_vault_def)
    have at: "getAbstractFileByPath v q = Some (File (Headed fm b))"
      using lookup_mem[OF dv m(1)] e by simp
    from ev at obtain c' where at': "getAbstractFileByPath v' q = Some (File c')"
      and ce: "content_evolves (Headed fm b) c'"
      unfolding evolves_def by blast
    have "wf_content (Headed fm b)" using wf at by (rule wf_vaultD)
    with ce n m(3) e have "cached_id_is n (File c')" by (simp add: content_evolves_def)
    with mem_lookup[OF at'] m(2) show ?thesis by blast
  next
    assume "\<exists>c. getAbstractFileByPath v (personPath cfg name) = Some (File c)"
    with ev show ?thesis unfolding evolves_def by blast
  qed
  with folder' show ?thesis unfolding findPersonNote_iff by blast
qed

text \<open>
  After a creator has been processed, the vault is settled for that creator:
  \<open>findPersonNote\<close> finds a person note for the creator; the image folder exists and the
  image path is taken or the image cannot be fetched; and the concepts folder and the
  note path of each of the creator's roles are taken. Nothing is required for a creator
  whose details cannot be fetched.
\<close>

definition has_person_note :: "settings \<Rightarrow> vault \<Rightarrow> unique_creator \<Rightarrow> bool" where
  "has_person_note cfg v c = (findPersonNote cfg v (uc_id c) (uc_name c) \<noteq> None)"

definition role_settled :: "settings \<Rightarrow> vault \<Rightarrow> string \<Rightarrow> bool" where
  "role_settled cfg v r =
     (r = [] \<or> (getAbstractFileByPath v (conceptsFolder cfg) \<noteq> None
               \<and> getAbstractFileByPath v (roleFilePath cfg r) \<noteq> None))"

definition image_path :: "settings \<Rightarrow> ComicVinePerson \<Rightarrow> string" where
  "image_path cfg d =
     creatorImagesFolder cfg @ ''/'' @ sanitizeForFileName (''person-'' @ show_int (person_id d) @ ''-photo.jpg'')"

definition image_settled :: "settings \<Rightarrow> env \<Rightarrow> ComicVinePerson \<Rightarrow> vault \<Rightarrow> bool" where
  "image_settled cfg en d v =
     (case person_image_super_url d of
        None \<Rightarrow> True
      | Some url \<Rightarrow>
          \<not> (downloadCreatorImages cfg \<and> url \<noteq> [])
          \<or> (getAbstractFileByPath v (creatorImagesFolder cfg) \<noteq> None
              \<and> (getAbstractFileByPath v (image_path cfg d) \<noteq> None \<or> requestImage en url = None)))"

definition settled :: "settings \<Rightarrow> env \<Rightarrow> unique_creator \<Rightarrow> vault \<Rightarrow> bool" where
  "settled cfg en c v =
     (case getPersonDetails en (uc_api_detail_url c) of
        None \<Rightarrow> True
      | Some d \<Rightarrow> has_person_note cfg v c \<and> image_settled cfg en d v
                  \<and> list_all (role_settled cfg v) (uc_roles c))"

lemma has_person_note_evolves:
  "wf_vault v \<Longrightarrow> evolves v v' \<Longrightarrow> uc_id c \<noteq> 0 \<Longrightarrow> has_person_note cfg v c \<Longrightarrow> has_person_note cfg v' c"
  unfolding has_person_note_def
  by (rule findPersonNote_evolves)

lemma role_settled_evolves: "evolves v v' \<Longrightarrow> role_settled cfg v r \<Longrightarrow> role_settled cfg v' r"
  unfolding role_settled_def
  using present_evolves[of v v'] by blast

lemma image_settled_evolves: "evolves v v' \<Longrightarrow> image_settled cfg en d v \<Longrightarrow> image_settled cfg en d v'"
  unfolding image_settled_def
  using present_evolves[of v v'] by (auto split: option.splits)

lemma settled_evolves:
  assumes "wf_vault v" "evolves v v'" "uc_id c \<noteq> 0" "settled cfg en c v"
  shows "settled cfg en c v'"
proof (cases "getPersonDetails en (uc_api_detail_url c)")
  case None
  then show ?thesis by (simp add: settled_def)
next
  case (Some d)
  with assms(4) have h: "has_person_note cfg v c" and i: "image_settled cfg en d v"
    and r: "list_all (role_settled cfg v) (uc_roles c)"
    by (simp_all add: settled_def)
  from r have "list_all (role_settled cfg v') (uc_roles c)"
    using role_settled_evolves[OF assms(2)] by (auto simp: list_all_iff)
  with has_person_note_evolves[OF assms(1,2,3) h] image_settled_evolves[OF assms(2) i] Some
  show ?thesis by (simp add: settled_def)
qed

lemma settled_env:
  "getPersonDetails en2 = getPersonDetails en \<Longrightarrow> requestImage en2 = requestImage en \<Longrightarrow>
   settled cfg en2 c v = settled cfg en c v"
  by (cases "getPersonDetails en (uc_api_detail_url c)")
     (simp_all add: settled_def image_settled_def split: option.splits)


subsection \<open>Images and roles are created once\<close>

lemma present_append: "getAbstractFileByPath v p \<noteq> None \<Longrightarrow> getAbstractFileByPath (v @ new) p \<noteq> None"
  by (simp add: lookup_append_keep)

lemma downloadImage_settles:
  assumes "downloadImage en v url folder fn = (r, v1)"
  shows "getAbstractFileByPath v1 folder \<noteq> None
       \<and> (getAbstractFileByPath v1 (folder @ ''/'' @ sanitizeForFileName fn) \<noteq> None \<or> requestImage en url = None)"
proof -
  let ?w = "ensureFolderExists v folder" and ?p = "folder @ ''/'' @ sanitizeForFileName fn"
  have f: "getAbstractFileByPath ?w folder \<noteq> None"
    by (simp add: lookup_ensureFolderExists split: option.splits)
  show ?thesis
  proof (cases "getAbstractFileByPath ?w ?p = None")
    case False
    then have "v1 = ?w" using assms
      by (auto simp: downloadImage_def Let_def vault_create_def split: option.splits entry.splits)
    with f False show ?thesis by simp
  next
    case True
    show ?thesis
    proof (cases "requestImage en url")
      case None
      with True assms have "v1 = ?w" by (simp add: downloadImage_def Let_def)
      with f None show ?thesis by simp
    next
      case (Some image_data)
      with True assms have "v1 = ?w @ [(?p, File (Plain image_data))]"
        by (simp add: downloadImage_def Let_def vault_create_def)
      with f show ?thesis by (simp add: lookup_snoc present_append split: option.splits)
    qed
  qed
qed

lemma downloadImage_settled:
  assumes "getAbstractFileByPath v folder \<noteq> None"
    and "getAbstractFileByPath v (folder @ ''/'' @ sanitizeForFileName fn) \<noteq> None \<or> requestImage en url = None"
    and "downloadImage en v url folder fn = (r, v1)"
  shows "v1 = v"
  using assms
  by (auto simp: downloadImage_def Let_def ensureFolderExists_present vault_create_def
           split: option.splits entry.splits)

lemma mergeImage_settles: "mergeImage cfg en d (st, v) = (st', v1) \<Longrightarrow> image_settled cfg en d v1"
  by (auto simp: mergeImage_def image_settled_def image_path_def
           split: option.splits if_splits prod.splits dest: downloadImage_settles)

lemma mergeImage_settled:
  "image_settled cfg en d v \<Longrightarrow> mergeImage cfg en d (st, v) = (st', v1) \<Longrightarrow> v1 = v"
  by (auto simp: mergeImage_def image_settled_def image_path_def
           split: option.splits if_splits prod.splits dest: downloadImage_settled[rotated 2])

lemma addRole_settles: "addRole cfg en ib r (st, v) = Inr (st', v') \<Longrightarrow> role_settled cfg v' r"
  using getOrCreateRoleNote_appends[of cfg "roleCreatedAt en" r v]
  by (auto simp: addRole_def role_settled_def Let_def split: if_splits sum.splits prod.splits)

lemma addRoles_settles:
  "addRoles cfg en ib rs (st, v) = Inr (st', v') \<Longrightarrow> list_all (role_settled cfg v') rs"
proof (induction rs arbitrary: st v)
  case Nil
  then show ?case by simp
next
  case (Cons r rs)
  from Cons.prems obtain st1 v1 where 1: "addRole cfg en ib r (st, v) = Inr (st1, v1)"
    and 2: "addRoles cfg en ib rs (st1, v1) = Inr (st', v')"
    by (auto split: sum.splits)
  have "role_settled cfg v1 r" using 1 by (rule addRole_settles)
  then have "role_settled cfg v' r" using addRoles_evolves[OF 2] by (rule role_settled_evolves[rotated])
  with Cons.IH[OF 2] show ?case by simp
qed

lemma addRole_settled:
  "role_settled cfg v r \<Longrightarrow> addRole cfg en ib r (st, v) = Inr (st', v') \<Longrightarrow> v' = v"
  using getOrCreateRoleNote_present[of v cfg r "roleCreatedAt en"]
  by (auto simp: addRole_def role_settled_def Let_def split: if_splits sum.splits prod.splits)

lemma addRoles_settled:
  "list_all (role_settled cfg v) rs \<Longrightarrow> addRoles cfg en ib rs (st, v) = Inr (st', v') \<Longrightarrow> v' = v"
proof (induction rs arbitrary: st)
  case Nil
  then show ?case by simp
next
  case (Cons r rs)
  from Cons.prems(2) obtain st1 v1 where 1: "addRole cfg en ib r (st, v) = Inr (st1, v1)"
    and 2: "addRoles cfg en ib rs (st1, v1) = Inr (st', v')"
    by (auto split: sum.splits)
  from Cons.prems(1) have "role_settled cfg v r" by simp
  then have "v1 = v" using 1 by (rule addRole_settled)
  with Cons.IH[of st1] Cons.prems(1) 2 show ?case by simp
qed

lemma set_set_order: "set (set_order xs) = set xs"
  by (induction xs) auto


text \<open>
  The operations on header fields fail with a \<open>TypeError\<close> only; \<open>FileExists\<close> comes from
  the creation of a file alone. In a vault that is settled for a role, a failing role step
  has not touched the vault.
\<close>

lemma js_includes_Inl: "js_includes a x = Inl e \<Longrightarrow> e = TypeError"
  by (cases a) auto

lemma js_push_Inl: "js_push a x = Inl e \<Longrightarrow> e = TypeError"
  by (cases a) auto

lemma js_sort_Inl: "js_sort a = Inl e \<Longrightarrow> e = TypeError"
  by (cases a) auto

lemma credit_matches_Inl: "credit_matches c r w = Inl e \<Longrightarrow> e = TypeError"
  by (cases c) auto

lemma some_credit_Inl: "some_credit cs r w = Inl e \<Longrightarrow> e = TypeError"
  by (induction cs) (auto split: sum.splits bool.splits dest: credit_matches_Inl)

lemma js_some_credit_Inl: "js_some_credit a r w = Inl e \<Longrightarrow> e = TypeError"
  by (cases a) (auto dest: some_credit_Inl)

lemma ensureTag_Inl: "ensureTag t st = Inl e \<Longrightarrow> e = TypeError"
  by (cases st) (auto simp: ensureTag_def split: sum.splits bool.splits dest: js_includes_Inl js_push_Inl)

lemma ensureLists_Inl: "ensureLists st = Inl e \<Longrightarrow> e = TypeError"
  by (cases st) (auto simp: ensureLists_def split: sum.splits dest: ensureTag_Inl)

lemma addRoleLink_Inl: "addRoleLink l st = Inl e \<Longrightarrow> e = TypeError"
  by (cases st) (auto simp: addRoleLink_def split: sum.splits bool.splits dest: js_includes_Inl js_push_Inl)

lemma addCredit_Inl: "addCredit l w st = Inl e \<Longrightarrow> e = TypeError"
  by (cases st) (auto simp: addCredit_def split: sum.splits bool.splits dest: js_some_credit_Inl js_push_Inl)

lemma addRole_settled_Inl:
  assumes "role_settled cfg v r" "addRole cfg en ib r (st, v) = Inl (e, v')"
  shows "e = TypeError \<and> v' = v"
proof (cases "r = []")
  case True
  with assms(2) show ?thesis by (simp add: addRole_def)
next
  case False
  with assms(1) have g: "getOrCreateRoleNote cfg (roleCreatedAt en) r v = Inr (roleFilePath cfg r, v)"
    by (simp add: role_settled_def getOrCreateRoleNote_present)
  from assms(2) False g show ?thesis
    by (auto simp: addRole_def Let_def split: sum.splits dest: addRoleLink_Inl addCredit_Inl)
qed

lemma addRoles_settled_Inl:
  "list_all (role_settled cfg v) rs \<Longrightarrow> addRoles cfg en ib rs (st, v) = Inl (e, v') \<Longrightarrow> e = TypeError \<and> v' = v"
proof (induction rs arbitrary: st)
  case Nil
  then show ?case by simp
next
  case (Cons r rs)
  from Cons.prems(1) have r: "role_settled cfg v r" and rs: "list_all (role_settled cfg v) rs" by simp_all
  show ?case
  proof (cases "addRole cfg en ib r (st, v)")
    case (Inl ev)
    with Cons.prems(2) have "addRole cfg en ib r (st, v) = Inl (e, v')" by simp
    with r show ?thesis by (rule addRole_settled_Inl)
  next
    case (Inr sv1)
    obtain st1 v1 where sv1: "sv1 = (st1, v1)" by (cases sv1)
    from r Inr sv1 have "v1 = v" by (simp add: addRole_settled)
    with Cons.prems(2) Inr sv1 have "addRoles cfg en ib rs (st1, v) = Inl (e, v')" by simp
    with rs show ?thesis by (rule Cons.IH)
  qed
qed


subsection \<open>The second import\<close>

lemma role_settled_mono:
  "set (map fst v) \<subseteq> set (map fst v') \<Longrightarrow> role_settled cfg v r \<Longrightarrow> role_settled cfg v' r"
  unfolding role_settled_def present_iff by blast

lemma image_settled_mono:
  "set (map fst v) \<subseteq> set (map fst v') \<Longrightarrow> image_settled cfg en d v \<Longrightarrow> image_settled cfg en d v'"
  unfolding image_settled_def present_iff by (auto split: option.splits)

lemma processCreator_Inr:
  assumes "processCreator cfg en ib c v = Inr v'"
    and "getPersonDetails en (uc_api_detail_url c) = Some d"
  shows "\<exists>st v1 st1 st2 v2.
           mergeImage cfg en d
             (mergeDetails en (findPersonNote cfg v (uc_id c) (uc_name c) \<noteq> None) d
                (fst (case findPersonNote cfg v (uc_id c) (uc_name c) of
                        Some (path, x) \<Rightarrow> parseFrontmatter x
                      | None \<Rightarrow> ([], ''# '' @ uc_name c @ [CHR 0x0A, CHR 0x0A]))), v) = (st, v1)
           \<and> ensureLists st = Inr st1
           \<and> addRoles cfg en ib (set_order (uc_roles c)) (st1, v1) = Inr (st2, v2)
           \<and> writePerson cfg en c (map_option fst (findPersonNote cfg v (uc_id c) (uc_name c)))
                (snd (case findPersonNote cfg v (uc_id c) (uc_name c) of
                        Some (path, x) \<Rightarrow> parseFrontmatter x
                      | None \<Rightarrow> ([], ''# '' @ uc_name c @ [CHR 0x0A, CHR 0x0A]))) (st2, v2) = Inr v'"
  using assms
  by (auto simp: processCreator_def Let_def split: sum.splits prod.splits)

lemma writePerson_paths:
  assumes "writePerson cfg en c pf body (st2, v2) = Inr v'"
  shows "set (map fst v2) \<subseteq> set (map fst v')"
proof (cases "snd st2")
  case False
  with assms have "v' = v2" by (cases st2) (simp add: writePerson_def)
  then show ?thesis by simp
next
  case True
  then obtain fm2 where st2: "st2 = (fm2, True)" by (cases st2) simp
  from writePerson_Inr[OF assms[unfolded st2]]
  have "map fst v' = map fst v2 \<or> (\<exists>x. v' = v2 @ [x])"
    by (cases pf) (auto simp: paths_vault_modify dest!: vault_create_Inr)
  then show ?thesis
  proof
    assume "map fst v' = map fst v2"
    then show ?thesis by (simp only: subset_refl)
  next
    assume "\<exists>x. v' = v2 @ [x]"
    then show ?thesis by auto
  qed
qed

lemma processCreator_settles:
  assumes wf: "wf_vault v" and pf: "getAbstractFileByPath v (peopleFolder cfg) = Some Folder"
    and id: "uc_id c \<noteq> 0"
    and run: "processCreator cfg en ib c v = Inr v'"
  shows "settled cfg en c v'"
proof (cases "getPersonDetails en (uc_api_detail_url c)")
  case None
  then show ?thesis by (simp add: settled_def)
next
  case (Some d)
  let ?found = "findPersonNote cfg v (uc_id c) (uc_name c)"
  let ?parsed = "case ?found of Some (path, x) \<Rightarrow> parseFrontmatter x
                      | None \<Rightarrow> ([], ''# '' @ uc_name c @ [CHR 0x0A, CHR 0x0A])"
  from processCreator_Inr[OF run Some] obtain st v1 st1 st2 v2 where
    mi: "mergeImage cfg en d (mergeDetails en (?found \<noteq> None) d (fst ?parsed), v) = (st, v1)"
    and el: "ensureLists st = Inr st1"
    and ar: "addRoles cfg en ib (set_order (uc_roles c)) (st1, v1) = Inr (st2, v2)"
    and wr: "writePerson cfg en c (map_option fst ?found) (snd ?parsed) (st2, v2) = Inr v'"
    by blast
  obtain new2 where n2: "v2 = v1 @ new2" using addRoles_appends[OF ar] by blast
  have p2: "set (map fst v2) \<subseteq> set (map fst v')" using wr by (rule writePerson_paths)
  have p1: "set (map fst v1) \<subseteq> set (map fst v')" using p2 n2 by auto
  have i: "image_settled cfg en d v'"
    using p1 mergeImage_settles[OF mi] by (rule image_settled_mono)
  have "list_all (role_settled cfg v2) (set_order (uc_roles c))" using ar by (rule addRoles_settles)
  then have r: "list_all (role_settled cfg v') (uc_roles c)"
    using role_settled_mono[OF p2] by (auto simp: list_all_iff set_set_order)
  have ev: "evolves v v'" using wf run by (rule processCreator_evolves)
  have h: "has_person_note cfg v' c"
  proof (cases "?found = None")
    case False
    then have "has_person_note cfg v c" by (simp add: has_person_note_def)
    with wf ev id show ?thesis by (rule has_person_note_evolves)
  next
    case True
    then have "snd st2" using pipeline(3)[OF mi el ar] by simp
    then obtain fm2 where st2: "st2 = (fm2, True)" by (cases st2) simp
    from writePerson_Inr[OF wr[unfolded st2]] True
    obtain x where "getAbstractFileByPath v' (personPath cfg (uc_name c)) = Some (File x)"
      by (auto dest!: vault_create_Inr)
    moreover have "getAbstractFileByPath v' (peopleFolder cfg) = Some Folder"
      using ev pf unfolding evolves_def by blast
    ultimately show ?thesis unfolding has_person_note_def findPersonNote_iff by blast
  qed
  from Some h i r show ?thesis by (simp add: settled_def)
qed

text \<open>
  In a vault that is settled for a creator, the iteration for that creator creates
  nothing: it returns a vault with the same paths, or it stops with a \<open>TypeError\<close> before
  it has written anything.
\<close>

lemma processCreator_Some:
  assumes "getPersonDetails en (uc_api_detail_url c) = Some d"
    and "findPersonNote cfg v (uc_id c) (uc_name c) = Some (path, x)"
    and "mergeImage cfg en d (mergeDetails en True d (fst (parseFrontmatter x)), v) = (st, v1)"
  shows "processCreator cfg en ib c v =
     (case ensureLists st of
        Inl e \<Rightarrow> Inl (e, v1)
      | Inr st1 \<Rightarrow>
          (case addRoles cfg en ib (set_order (uc_roles c)) (st1, v1) of
             Inl ev \<Rightarrow> Inl ev
           | Inr sv2 \<Rightarrow> writePerson cfg en c (Some path) (snd (parseFrontmatter x)) sv2))"
  by (simp add: processCreator_def Let_def assms split: sum.splits)

lemma writePerson_found:
  "writePerson cfg en c (Some path) body (st2, v) = Inl (e, v') \<Longrightarrow> e = TypeError \<and> v' = v"
  "writePerson cfg en c (Some path) body (st2, v) = Inr v' \<Longrightarrow> map fst v' = map fst v"
  by (cases st2; auto simp: writePerson_def Let_def paths_vault_modify split: if_splits sum.splits
        dest: js_sort_Inl)+

lemma processCreator_settled:
  assumes se: "settled cfg en c v"
  shows "(\<exists>v'. processCreator cfg en ib c v = Inr v' \<and> map fst v' = map fst v)
       \<or> processCreator cfg en ib c v = Inl (TypeError, v)"
proof (cases "getPersonDetails en (uc_api_detail_url c)")
  case None
  then show ?thesis by (simp add: processCreator_def Let_def)
next
  case (Some d)
  from se Some have h: "has_person_note cfg v c" and i: "image_settled cfg en d v"
    and r: "list_all (role_settled cfg v) (uc_roles c)"
    by (simp_all add: settled_def)
  from h obtain path x where fo: "findPersonNote cfg v (uc_id c) (uc_name c) = Some (path, x)"
    by (auto simp: has_person_note_def)
  obtain st v1 where mi: "mergeImage cfg en d (mergeDetails en True d (fst (parseFrontmatter x)), v) = (st, v1)"
    by (cases "mergeImage cfg en d (mergeDetails en True d (fst (parseFrontmatter x)), v)")
  have v1: "v1 = v" using i mi by (rule mergeImage_settled)
  note u = processCreator_Some[OF Some fo mi[unfolded v1], of ib]
  from r have rs: "list_all (role_settled cfg v) (set_order (uc_roles c))"
    by (simp add: list_all_iff set_set_order)
  show ?thesis
  proof (cases "ensureLists st")
    case (Inl e)
    then show ?thesis using u by (simp add: ensureLists_Inl)
  next
    case el: (Inr st1)
    show ?thesis
    proof (cases "addRoles cfg en ib (set_order (uc_roles c)) (st1, v)")
      case (Inl ev)
      obtain e w where ev: "ev = (e, w)" by (cases ev)
      from addRoles_settled_Inl[OF rs Inl[unfolded ev]] show ?thesis
        using u el Inl ev by simp
    next
      case ar: (Inr sv2)
      obtain st2 v2 where sv2: "sv2 = (st2, v2)" by (cases sv2)
      have v2: "v2 = v" using rs ar[unfolded sv2] by (rule addRoles_settled)
      have p: "processCreator cfg en ib c v = writePerson cfg en c (Some path) (snd (parseFrontmatter x)) (st2, v)"
        using u el ar sv2 v2 by simp
      show ?thesis
      proof (cases "writePerson cfg en c (Some path) (snd (parseFrontmatter x)) (st2, v)")
        case (Inl ev)
        obtain e w where ev: "ev = (e, w)" by (cases ev)
        from writePerson_found(1)[OF Inl[unfolded ev]] show ?thesis using p Inl ev by simp
      next
        case (Inr v')
        from writePerson_found(2)[OF Inr] show ?thesis using p Inr by simp
      qed
    qed
  qed
qed

lemma processCreators_settles:
  assumes "wf_vault v" "getAbstractFileByPath v (peopleFolder cfg) = Some Folder"
    and "list_all (\<lambda>c. uc_id c \<noteq> 0) cs"
    and "processCreators cfg en ib cs v = Inr v'"
  shows "evolves v v' \<and> list_all (\<lambda>c. settled cfg en c v') cs"
  using assms
proof (induction cs arbitrary: v)
  case Nil
  then show ?case by (simp add: evolves_refl)
next
  case (Cons c cs)
  from Cons.prems(4) obtain v1 where 1: "processCreator cfg en ib c v = Inr v1"
    and 2: "processCreators cfg en ib cs v1 = Inr v'"
    by (auto split: sum.splits)
  from Cons.prems(3) have id: "uc_id c \<noteq> 0" and ids: "list_all (\<lambda>c. uc_id c \<noteq> 0) cs" by simp_all
  have e1: "evolves v v1" using Cons.prems(1) 1 by (rule processCreator_evolves)
  have wf1: "wf_vault v1" using Cons.prems(1) e1 by (rule wf_evolves)
  have pf1: "getAbstractFileByPath v1 (peopleFolder cfg) = Some Folder"
    using e1 Cons.prems(2) unfolding evolves_def by blast
  have s1: "settled cfg en c v1" using Cons.prems(1,2) id 1 by (rule processCreator_settles)
  from Cons.IH[OF wf1 pf1 ids 2] have e2: "evolves v1 v'" and rest: "list_all (\<lambda>c. settled cfg en c v') cs"
    by simp_all
  have "settled cfg en c v'" using wf1 e2 id s1 by (rule settled_evolves)
  with rest evolves_trans[OF e1 e2] show ?case by simp
qed

lemma processCreators_settled:
  assumes "wf_vault v" "list_all (\<lambda>c. uc_id c \<noteq> 0) cs" "list_all (\<lambda>c. settled cfg en c v) cs"
  shows "\<exists>v'. (processCreators cfg en ib cs v = Inr v' \<or> processCreators cfg en ib cs v = Inl (TypeError, v'))
            \<and> evolves v v' \<and> map fst v' = map fst v"
  using assms
proof (induction cs arbitrary: v)
  case Nil
  then show ?case by (simp add: evolves_refl)
next
  case (Cons c cs)
  from Cons.prems(2) have id: "uc_id c \<noteq> 0" and ids: "list_all (\<lambda>c. uc_id c \<noteq> 0) cs" by simp_all
  from Cons.prems(3) have s: "settled cfg en c v" and ss: "list_all (\<lambda>c. settled cfg en c v) cs" by simp_all
  from processCreator_settled[OF s, of ib] show ?case
  proof
    assume "processCreator cfg en ib c v = Inl (TypeError, v)"
    then have "processCreators cfg en ib (c # cs) v = Inl (TypeError, v)" by simp
    then show ?thesis using evolves_refl by blast
  next
    assume "\<exists>v1. processCreator cfg en ib c v = Inr v1 \<and> map fst v1 = map fst v"
    then obtain v1 where 1: "processCreator cfg en ib c v = Inr v1" and p1: "map fst v1 = map fst v"
      by blast
    have e1: "evolves v v1" using Cons.prems(1) 1 by (rule processCreator_evolves)
    have wf1: "wf_vault v1" using Cons.prems(1) e1 by (rule wf_evolves)
    have ss1: "list_all (\<lambda>c. settled cfg en c v1) cs"
      using ss ids settled_evolves[OF Cons.prems(1) e1] by (auto simp: list_all_iff)
    from Cons.IH[OF wf1 ids ss1] obtain v' where
      r: "processCreators cfg en ib cs v1 = Inr v' \<or> processCreators cfg en ib cs v1 = Inl (TypeError, v')"
      and e2: "evolves v1 v'" and p2: "map fst v' = map fst v1"
      by blast
    have "processCreators cfg en ib (c # cs) v = Inr v' \<or> processCreators cfg en ib (c # cs) v = Inl (TypeError, v')"
      using r 1 by auto
    moreover have "evolves v v'" using e1 e2 by (rule evolves_trans)
    ultimately show ?thesis using p1 p2 by auto
  qed
qed

lemma add_creator_ids: "uc_id ` set (add_creator c us) = insert (credit_id c) (uc_id ` set us)"
  by (induction us) auto

lemma uniqueCreators_ids: "uc_id ` set (uniqueCreators creators) = credit_id ` set creators"
proof -
  have "uc_id ` set (foldl (\<lambda>us c. add_creator c us) us0 cs) = uc_id ` set us0 \<union> credit_id ` set cs" for us0 cs
    by (induction cs arbitrary: us0) (auto simp: add_creator_ids)
  then show ?thesis by (simp add: uniqueCreators_def)
qed

text \<open>
  Claim C3, as the code has it. Take a well-formed vault whose people-folder path is not
  taken by a file and in which no note lists a credit twice, creator notes enabled,
  credits whose ids are not zero, and a run of \<open>ensureCreatorNotesExist\<close> that completes.
  Then \<open>findPersonNote\<close> finds, by id or by name, a person note for every credited creator
  whose details were fetched; and a second run on the same credits and issue file, at
  any later clock readings, completes or stops on a \<open>TypeError\<close>, in either case without
  having created a file or a folder, and leaves no note that lists a credit twice.
\<close>

theorem ensureCreatorNotesExist_twice:
  assumes wf: "wf_vault v"
    and pf: "getAbstractFileByPath v (peopleFolder cfg) \<in> {None, Some Folder}"
    and nd: "no_duplicate_credits_in v"
    and on: "createCreatorNotes cfg"
    and ids: "list_all (\<lambda>c. credit_id c \<noteq> 0) creators"
    and run1: "ensureCreatorNotesExist cfg en creators issueFile v = Inr v1"
  shows "\<exists>v2. (ensureCreatorNotesExist cfg (en\<lparr>fetchedAt := t1, writtenAt := t2, roleCreatedAt := t3\<rparr>)
                   creators issueFile v1 = Inr v2
               \<or> ensureCreatorNotesExist cfg (en\<lparr>fetchedAt := t1, writtenAt := t2, roleCreatedAt := t3\<rparr>)
                   creators issueFile v1 = Inl (TypeError, v2))
            \<and> map fst v2 = map fst v1
            \<and> no_duplicate_credits_in v2
            \<and> list_all (\<lambda>c. getPersonDetails en (uc_api_detail_url c) \<noteq> None \<longrightarrow>
                             findPersonNote cfg v1 (uc_id c) (uc_name c) \<noteq> None
                             \<and> findPersonNote cfg v2 (uc_id c) (uc_name c) \<noteq> None)
                  (uniqueCreators creators)"
proof (cases "creators = []")
  case True
  with run1 have "v1 = v" by (simp add: ensureCreatorNotesExist_def)
  then show ?thesis using True nd by (simp add: ensureCreatorNotesExist_def uniqueCreators_def)
next
  case False
  let ?en2 = "en\<lparr>fetchedAt := t1, writtenAt := t2, roleCreatedAt := t3\<rparr>"
  let ?cs = "uniqueCreators creators" and ?ib = "basename issueFile"
  let ?v0 = "ensureFolderExists v (peopleFolder cfg)"
  from run1 False on have r1: "processCreators cfg en ?ib ?cs ?v0 = Inr v1"
    by (simp add: ensureCreatorNotesExist_def)
  have e0: "evolves v ?v0" by (rule evolves_ensureFolderExists)
  have wf0: "wf_vault ?v0" using wf e0 by (rule wf_evolves)
  have pf0: "getAbstractFileByPath ?v0 (peopleFolder cfg) = Some Folder"
    using pf by (auto simp: lookup_ensureFolderExists)
  have uids: "list_all (\<lambda>c. uc_id c \<noteq> 0) ?cs"
  proof -
    have "\<forall>c\<in>set ?cs. uc_id c \<in> credit_id ` set creators"
      using uniqueCreators_ids[of creators] by blast
    with ids show ?thesis by (auto simp: list_all_iff)
  qed
  from processCreators_settles[OF wf0 pf0 uids r1] have e1: "evolves ?v0 v1"
    and s1: "list_all (\<lambda>c. settled cfg en c v1) ?cs"
    by simp_all
  have wf1: "wf_vault v1" using wf0 e1 by (rule wf_evolves)
  have "getAbstractFileByPath v1 (peopleFolder cfg) = Some Folder"
    using e1 pf0 unfolding evolves_def by blast
  then have same: "ensureFolderExists v1 (peopleFolder cfg) = v1" by (simp add: ensureFolderExists_present)
  have "settled cfg ?en2 c v1 = settled cfg en c v1" for c
    by (rule settled_env) simp_all
  with s1 have s2: "list_all (\<lambda>c. settled cfg ?en2 c v1) ?cs" by simp
  from processCreators_settled[OF wf1 uids s2, of ?ib] obtain v2 where
    r2: "processCreators cfg ?en2 ?ib ?cs v1 = Inr v2 \<or> processCreators cfg ?en2 ?ib ?cs v1 = Inl (TypeError, v2)"
    and e2: "evolves v1 v2" and p: "map fst v2 = map fst v1"
    by blast
  have out: "ensureCreatorNotesExist cfg ?en2 creators issueFile v1 = Inr v2
           \<or> ensureCreatorNotesExist cfg ?en2 creators issueFile v1 = Inl (TypeError, v2)"
    using r2 False on by (simp add: ensureCreatorNotesExist_def same)
  have "evolves v v2" using evolves_trans[OF e0 evolves_trans[OF e1 e2]] .
  with wf nd have nd2: "no_duplicate_credits_in v2" by (rule credits_evolves)
  have f: "list_all (\<lambda>c. getPersonDetails en (uc_api_detail_url c) \<noteq> None \<longrightarrow>
                             findPersonNote cfg v1 (uc_id c) (uc_name c) \<noteq> None
                             \<and> findPersonNote cfg v2 (uc_id c) (uc_name c) \<noteq> None) ?cs"
    unfolding list_all_iff
  proof (intro ballI impI)
    fix c
    assume c: "c \<in> set ?cs" and d: "getPersonDetails en (uc_api_detail_url c) \<noteq> None"
    from s1 c have "settled cfg en c v1" by (simp add: list_all_iff)
    with d have f1: "findPersonNote cfg v1 (uc_id c) (uc_name c) \<noteq> None"
      by (auto simp: settled_def has_person_note_def)
    from uids c have "uc_id c \<noteq> 0" by (simp add: list_all_iff)
    with wf1 e2 have "findPersonNote cfg v2 (uc_id c) (uc_name c) \<noteq> None"
      using f1 by (rule findPersonNote_evolves)
    with f1 show "findPersonNote cfg v1 (uc_id c) (uc_name c) \<noteq> None
                  \<and> findPersonNote cfg v2 (uc_id c) (uc_name c) \<noteq> None" by simp
  qed
  from out p nd2 f show ?thesis by blast
qed


subsection \<open>Importing an issue twice: an example\<close>

text \<open>
  The settings with the download of creator images switched on, a second environment
  with the same API answers and later clock readings, and the vault that the first
  import of the two credits leaves behind.
\<close>

definition imageSettings :: settings where
  "imageSettings = DEFAULT_SETTINGS\<lparr>downloadCreatorImages := True\<rparr>"

definition env1 :: env where
  "env1 = env0\<lparr>fetchedAt := ''2025-02-02T00:00:00.000Z'', writtenAt := ''2025-02-02T00:00:01.000Z'',
                roleCreatedAt := ''2025-02-02T00:00:00.500Z''\<rparr>"

definition roleNote :: "string \<Rightarrow> content" where
  "roleNote cap = Headed (roleFrontmatter ''2025-01-01T00:00:00.500Z'' cap) (roleBody cap)"

definition artistRoleNote :: "string \<Rightarrow> content" where
  "artistRoleNote cap =
     Headed (roleFrontmatter ''2025-01-01T00:00:00.500Z'' cap @ [(''subConceptOf'', JStr ''[[Artist (Role)]]'')])
            (roleBody cap)"

definition claremontImported :: content where
  "claremontImported =
     Headed [(''entityType'', JStr ''Person''), (''name'', JStr ''C. Claremont''),
             (''comicVineId'', JNum 40439), (''rating'', JNum 0),
             (''credits'', JArr [JObj [(''role'', JStr ''[[Writer (Role)]]''),
                                      (''work'', JStr ''[[Uncanny X-Men #141]]'')]]),
             (''modification date'', JStr ''2025-01-01T00:00:01.000Z''),
             (''comicVineUrl'', JStr ''https://comicvine.gamespot.com/chris-claremont/4040-40439/''),
             (''birthDate'', JObj [(''value'', JStr ''1950-11''), (''year'', JNum 1950), (''month'', JNum 11)]),
             (''image'', JStr ''[[person-40439-photo.jpg]]''),
             (''roles'', JArr [JStr ''[[Writer (Role)]]'']),
             (''tags'', JArr [JStr ''person'', JStr ''comic-creator''])]
            ''My notes on Claremont.\<newline>''"

definition byrneImported :: content where
  "byrneImported =
     Headed [(''entityType'', JStr ''Person''), (''name'', JStr ''John Byrne''),
             (''comicVineId'', JNum 1789),
             (''comicVineUrl'', JStr ''https://comicvine.gamespot.com/john-byrne/4040-1789/''),
             (''aliases'', JArr []),
             (''tags'', JArr [JStr ''person'', JStr ''comic-creator'']),
             (''creation date'', JStr ''2025-01-01T00:00:00.000Z''),
             (''modification date'', JStr ''2025-01-01T00:00:01.000Z''),
             (''birthDate'', JObj [(''value'', JStr ''1950''), (''year'', JNum 1950)]),
             (''roles'', JArr [JStr ''[[Inker (Role)]]'', JStr ''[[Penciler (Role)]]'']),
             (''credits'', JArr [JObj [(''role'', JStr ''[[Penciler (Role)]]''),
                                      (''work'', JStr ''[[Uncanny X-Men #141]]'')],
                                 JObj [(''role'', JStr ''[[Inker (Role)]]''),
                                      (''work'', JStr ''[[Uncanny X-Men #141]]'')]])]
            ''# John Byrne\<newline>\<newline>''"

definition importedVault :: vault where
  "importedVault =
     [(''Entities/People'', Folder),
      (''Entities/People/Chris Claremont.md'', File claremontImported),
      (''Assets/Creators'', Folder),
      (''Assets/Creators/person-40439-photo.jpg'', File (Plain ''JPEG'')),
      (''Comics/Concepts'', Folder),
      (''Comics/Concepts/Writer (Role).md'', File (roleNote ''Writer'')),
      (''Comics/Concepts/Artist (Role).md'', File (roleNote ''Artist'')),
      (''Comics/Concepts/Penciler (Role).md'', File (artistRoleNote ''Penciler'')),
      (''Comics/Concepts/Inker (Role).md'', File (artistRoleNote ''Inker'')),
      (''Entities/People/John Byrne.md'', File byrneImported)]"

text \<open>
  A vault in which the note on the second creator already lists one credit twice, and
  that note after the import of that creator's credit.
\<close>

definition byrneCredit :: person_credit where
  "byrneCredit = \<lparr>credit_id = 1789, credit_name = ''John Byrne'', credit_role = ''penciler, inker'',
                   credit_api_detail_url = ''api/person/1789''\<rparr>"

definition byrneListedTwice :: content where
  "byrneListedTwice =
     Headed [(''entityType'', JStr ''Person''), (''name'', JStr ''John Byrne''),
             (''comicVineId'', JNum 1789),
             (''comicVineUrl'', JStr ''https://comicvine.gamespot.com/john-byrne/4040-1789/''),
             (''birthDate'', JObj [(''value'', JStr ''1950''), (''year'', JNum 1950)]),
             (''roles'', JArr [JStr ''[[Penciler (Role)]]'']),
             (''credits'', JArr [JObj [(''role'', JStr ''[[Penciler (Role)]]''),
                                      (''work'', JStr ''[[Uncanny X-Men #141]]'')],
                                 JObj [(''role'', JStr ''[[Penciler (Role)]]''),
                                      (''work'', JStr ''[[Uncanny X-Men #141]]'')]]),
             (''tags'', JArr [JStr ''person'', JStr ''comic-creator''])]
            ''# John Byrne\<newline>''"

definition byrneStillTwice :: content where
  "byrneStillTwice =
     Headed [(''entityType'', JStr ''Person''), (''name'', JStr ''John Byrne''),
             (''comicVineId'', JNum 1789),
             (''comicVineUrl'', JStr ''https://comicvine.gamespot.com/john-byrne/4040-1789/''),
             (''birthDate'', JObj [(''value'', JStr ''1950''), (''year'', JNum 1950)]),
             (''roles'', JArr [JStr ''[[Inker (Role)]]'', JStr ''[[Penciler (Role)]]'']),
             (''credits'', JArr [JObj [(''role'', JStr ''[[Penciler (Role)]]''),
                                      (''work'', JStr ''[[Uncanny X-Men #141]]'')],
                                 JObj [(''role'', JStr ''[[Penciler (Role)]]''),
                                      (''work'', JStr ''[[Uncanny X-Men #141]]'')],
                                 JObj [(''role'', JStr ''[[Inker (Role)]]''),
                                      (''work'', JStr ''[[Uncanny X-Men #141]]'')]]),
             (''tags'', JArr [JStr ''person'', JStr ''comic-creator'']),
             (''modification date'', JStr ''2025-01-01T00:00:01.000Z'')]
            ''# John Byrne\<newline>''"

definition vaultListedTwice :: vault where
  "vaultListedTwice =
     [(''Entities/People'', Folder), (''Entities/People/John Byrne.md'', File byrneListedTwice)]"

definition vaultStillTwice :: vault where
  "vaultStillTwice =
     [(''Entities/People'', Folder), (''Entities/People/John Byrne.md'', File byrneStillTwice),
      (''Comics/Concepts'', Folder),
      (''Comics/Concepts/Artist (Role).md'', File (roleNote ''Artist'')),
      (''Comics/Concepts/Penciler (Role).md'', File (artistRoleNote ''Penciler'')),
      (''Comics/Concepts/Inker (Role).md'', File (artistRoleNote ''Inker''))]"

text \<open>
  A vault in which the note on the first creator has a number for \<open>tags\<close>, and a credit
  whose details the API does not return.
\<close>

definition vaultBadTags :: vault where
  "vaultBadTags =
     [(''Entities/People'', Folder),
      (''Entities/People/Chris Claremont.md'', File (Headed [(''tags'', JNum 42)] ''Notes.''))]"

definition unknownCredit :: person_credit where
  "unknownCredit = \<lparr>credit_id = 7, credit_name = ''Terry Austin'', credit_role = ''inker'',
                     credit_api_detail_url = ''api/person/7''\<rparr>"

text \<open>
  Two credits with different ids and the same name, and a credit with id 0 together with
  a vault that holds a note whose \<open>comicVineId\<close> is 0.
\<close>

definition smithCredits :: "person_credit list" where
  "smithCredits =
     [\<lparr>credit_id = 40439, credit_name = ''John Smith'', credit_role = ''writer'',
       credit_api_detail_url = ''api/person/40439''\<rparr>,
      \<lparr>credit_id = 1789, credit_name = ''John Smith'', credit_role = ''inker'',
       credit_api_detail_url = ''api/person/1789''\<rparr>]"

definition zeroCredit :: person_credit where
  "zeroCredit = \<lparr>credit_id = 0, credit_name = ''Chris Claremont'', credit_role = ''writer'',
                  credit_api_detail_url = ''api/person/40439''\<rparr>"

definition vaultZero :: vault where
  "vaultZero = [(''Entities/People'', Folder),
                (''Entities/People/Unsorted.md'', File (Headed [(''comicVineId'', JNum 0)] ''To do.''))]"

text \<open>A vault in which the path of the people folder is taken by a file.\<close>

definition vaultPeopleFile :: vault where
  "vaultPeopleFile = [(''Entities/People'', File (Plain ''A list of people.''))]"

text \<open>
  Whether a run returned, and the paths and the vault that it returned or stopped with.
\<close>

definition completed :: "(js_error \<times> vault) + vault \<Rightarrow> bool" where
  "completed r = (case r of Inl x \<Rightarrow> False | Inr v \<Rightarrow> True)"

definition paths_after :: "(js_error \<times> vault) + vault \<Rightarrow> string list" where
  "paths_after r = (case r of Inl (e, v) \<Rightarrow> map fst v | Inr v \<Rightarrow> map fst v)"

definition vault_after :: "(js_error \<times> vault) + vault \<Rightarrow> vault" where
  "vault_after r = (case r of Inl (e, v) \<Rightarrow> v | Inr v \<Rightarrow> v)"

lemma first_import:
  "ensureCreatorNotesExist imageSettings env0 credits0 ''Comics/Uncanny X-Men #141.md'' vault0 = Inr importedVault"
  by code_simp

lemma second_import:
  "ensureCreatorNotesExist imageSettings env1 credits0 ''Comics/Uncanny X-Men #141.md'' importedVault = Inr importedVault"
  by code_simp

text \<open>The theorem of claim C3 at the two imports of the example.\<close>

theorem ensureCreatorNotesExist_twice_witness:
  "wf_vault vault0
   \<and> getAbstractFileByPath vault0 (peopleFolder imageSettings) \<in> {None, Some Folder}
   \<and> no_duplicate_credits_in vault0 \<and> createCreatorNotes imageSettings
   \<and> list_all (\<lambda>c. credit_id c \<noteq> 0) credits0
   \<and> ensureCreatorNotesExist imageSettings env0 credits0 ''Comics/Uncanny X-Men #141.md'' vault0 = Inr importedVault
   \<and> ensureCreatorNotesExist imageSettings env1 credits0 ''Comics/Uncanny X-Men #141.md'' importedVault
       = Inr importedVault
   \<and> (\<exists>v2. (ensureCreatorNotesExist imageSettings env1 credits0 ''Comics/Uncanny X-Men #141.md'' importedVault = Inr v2
             \<or> ensureCreatorNotesExist imageSettings env1 credits0 ''Comics/Uncanny X-Men #141.md'' importedVault
                 = Inl (TypeError, v2))
          \<and> map fst v2 = map fst importedVault
          \<and> no_duplicate_credits_in v2
          \<and> list_all (\<lambda>c. getPersonDetails env0 (uc_api_detail_url c) \<noteq> None \<longrightarrow>
                           findPersonNote imageSettings importedVault (uc_id c) (uc_name c) \<noteq> None
                           \<and> findPersonNote imageSettings v2 (uc_id c) (uc_name c) \<noteq> None)
                (uniqueCreators credits0))"
proof -
  have wf: "wf_vault vault0" by code_simp
  have pf: "getAbstractFileByPath vault0 (peopleFolder imageSettings) \<in> {None, Some Folder}" by code_simp
  have nd: "no_duplicate_credits_in vault0" by code_simp
  have on: "createCreatorNotes imageSettings" by code_simp
  have ids: "list_all (\<lambda>c. credit_id c \<noteq> 0) credits0" by code_simp
  from ensureCreatorNotesExist_twice[OF wf pf nd on ids first_import,
      where ?t1.0 = "''2025-02-02T00:00:00.000Z''" and ?t2.0 = "''2025-02-02T00:00:01.000Z''"
        and ?t3.0 = "''2025-02-02T00:00:00.500Z''"]
  have "\<exists>v2. (ensureCreatorNotesExist imageSettings env1 credits0 ''Comics/Uncanny X-Men #141.md'' importedVault = Inr v2
             \<or> ensureCreatorNotesExist imageSettings env1 credits0 ''Comics/Uncanny X-Men #141.md'' importedVault
                 = Inl (TypeError, v2))
          \<and> map fst v2 = map fst importedVault
          \<and> no_duplicate_credits_in v2
          \<and> list_all (\<lambda>c. getPersonDetails env0 (uc_api_detail_url c) \<noteq> None \<longrightarrow>
                           findPersonNote imageSettings importedVault (uc_id c) (uc_name c) \<noteq> None
                           \<and> findPersonNote imageSettings v2 (uc_id c) (uc_name c) \<noteq> None)
                (uniqueCreators credits0)"
    unfolding env1_def .
  with wf pf nd on ids first_import second_import show ?thesis by (intro conjI)
qed

lemma duplicate_kept:
  "ensureCreatorNotesExist DEFAULT_SETTINGS env0 [byrneCredit] ''Comics/Uncanny X-Men #141.md'' vaultListedTwice
     = Inr vaultStillTwice"
  "ensureCreatorNotesExist DEFAULT_SETTINGS env1 [byrneCredit] ''Comics/Uncanny X-Men #141.md'' vaultStillTwice
     = Inr vaultStillTwice"
  "getAbstractFileByPath vaultStillTwice ''Entities/People/John Byrne.md'' = Some (File byrneStillTwice)"
  "fm_get (header_of byrneStillTwice) ''credits''
       = JArr [JObj [(''role'', JStr ''[[Penciler (Role)]]''), (''work'', JStr ''[[Uncanny X-Men #141]]'')],
               JObj [(''role'', JStr ''[[Penciler (Role)]]''), (''work'', JStr ''[[Uncanny X-Men #141]]'')],
               JObj [(''role'', JStr ''[[Inker (Role)]]''), (''work'', JStr ''[[Uncanny X-Men #141]]'')]]"
  "\<not> no_duplicate_credits (header_of byrneStillTwice)"
  by code_simp+

lemma import_stops:
  "ensureCreatorNotesExist DEFAULT_SETTINGS env0 credits0 ''Comics/Uncanny X-Men #141.md'' vaultBadTags
     = Inl (TypeError, vaultBadTags)"
  "findPersonNote DEFAULT_SETTINGS vaultBadTags 1789 ''John Byrne'' = None"
  by code_simp+

lemma details_not_returned:
  "ensureCreatorNotesExist DEFAULT_SETTINGS env0 [unknownCredit] ''Comics/Uncanny X-Men #141.md'' []
     = Inr [(''Entities/People'', Folder)]"
  "findPersonNote DEFAULT_SETTINGS [(''Entities/People'', Folder)] 7 ''Terry Austin'' = None"
  by code_simp+

lemma same_name_creators_share_note:
  "paths_after (ensureCreatorNotesExist DEFAULT_SETTINGS env0 smithCredits ''Comics/Uncanny X-Men #141.md'' [])
     = [''Entities/People'', ''Comics/Concepts'', ''Comics/Concepts/Writer (Role).md'',
        ''Entities/People/John Smith.md'', ''Comics/Concepts/Artist (Role).md'',
        ''Comics/Concepts/Inker (Role).md'']"
  by code_simp

lemma zero_id_second_import_adds_note:
  "paths_after (ensureCreatorNotesExist DEFAULT_SETTINGS env0 [zeroCredit] ''Comics/Uncanny X-Men #141.md'' vaultZero)
     = [''Entities/People'', ''Entities/People/Unsorted.md'', ''Comics/Concepts'',
        ''Comics/Concepts/Writer (Role).md'']"
  "paths_after (ensureCreatorNotesExist DEFAULT_SETTINGS env1 [zeroCredit] ''Comics/Uncanny X-Men #141.md''
         (vault_after (ensureCreatorNotesExist DEFAULT_SETTINGS env0 [zeroCredit] ''Comics/Uncanny X-Men #141.md'' vaultZero)))
     = [''Entities/People'', ''Entities/People/Unsorted.md'', ''Comics/Concepts'',
        ''Comics/Concepts/Writer (Role).md'', ''Entities/People/Chris Claremont.md'']"
  by code_simp+

lemma people_path_taken_by_file:
  "completed (ensureCreatorNotesExist DEFAULT_SETTINGS env0 [byrneCredit] ''Comics/Uncanny X-Men #141.md'' vaultPeopleFile)"
  "findPersonNote DEFAULT_SETTINGS
       (vault_after (ensureCreatorNotesExist DEFAULT_SETTINGS env0 [byrneCredit] ''Comics/Uncanny X-Men #141.md'' vaultPeopleFile))
       1789 ''John Byrne'' = None"
  "ensureCreatorNotesExist DEFAULT_SETTINGS env1 [byrneCredit] ''Comics/Uncanny X-Men #141.md''
       (vault_after (ensureCreatorNotesExist DEFAULT_SETTINGS env0 [byrneCredit] ''Comics/Uncanny X-Men #141.md'' vaultPeopleFile))
     = Inl (FileExists,
            vault_after (ensureCreatorNotesExist DEFAULT_SETTINGS env0 [byrneCredit] ''Comics/Uncanny X-Men #141.md'' vaultPeopleFile))"
  by code_simp+

text \<open>
  Claim C3 as stated, for every issue and every state of the vault, fails in six ways.
  A note that already lists a credit twice still does after the issue has been imported
  twice: the engine adds the missing credit and removes nothing. An import that meets a
  note with a malformed \<open>tags\<close> field stops there, so the second creator gets no note.
  A creator whose details the API does not return gets no note. Two credited people with
  the same name are recorded in one note, the second being found by the name-based path.
  And a credit with id 0 matches a note whose \<open>comicVineId\<close> is 0; the first import replaces
  that falsy id by the id of the API answer, so the second import finds no note and
  creates one at the name-based path. Last, when the path of the people folder is taken
  by a file, \<open>findPersonNote\<close> finds nothing there: the note that the first import creates
  is not found by the second, which stops when \<open>vault.create\<close> refuses the path.
\<close>

theorem ensureCreatorNotesExist_keeps_duplicate_counterexample:
  "ensureCreatorNotesExist DEFAULT_SETTINGS env0 [byrneCredit] ''Comics/Uncanny X-Men #141.md'' vaultListedTwice
     = Inr vaultStillTwice
   \<and> ensureCreatorNotesExist DEFAULT_SETTINGS env1 [byrneCredit] ''Comics/Uncanny X-Men #141.md'' vaultStillTwice
     = Inr vaultStillTwice
   \<and> getAbstractFileByPath vaultStillTwice ''Entities/People/John Byrne.md'' = Some (File byrneStillTwice)
   \<and> fm_get (header_of byrneStillTwice) ''credits''
       = JArr [JObj [(''role'', JStr ''[[Penciler (Role)]]''), (''work'', JStr ''[[Uncanny X-Men #141]]'')],
               JObj [(''role'', JStr ''[[Penciler (Role)]]''), (''work'', JStr ''[[Uncanny X-Men #141]]'')],
               JObj [(''role'', JStr ''[[Inker (Role)]]''), (''work'', JStr ''[[Uncanny X-Men #141]]'')]]
   \<and> \<not> no_duplicate_credits (header_of byrneStillTwice)
   \<and> ensureCreatorNotesExist DEFAULT_SETTINGS env0 credits0 ''Comics/Uncanny X-Men #141.md'' vaultBadTags
     = Inl (TypeError, vaultBadTags)
   \<and> findPersonNote DEFAULT_SETTINGS vaultBadTags 1789 ''John Byrne'' = None
   \<and> ensureCreatorNotesExist DEFAULT_SETTINGS env0 [unknownCredit] ''Comics/Uncanny X-Men #141.md'' []
     = Inr [(''Entities/People'', Folder)]
   \<and> findPersonNote DEFAULT_SETTINGS [(''Entities/People'', Folder)] 7 ''Terry Austin'' = None
   \<and> paths_after (ensureCreatorNotesExist DEFAULT_SETTINGS env0 smithCredits ''Comics/Uncanny X-Men #141.md'' [])
     = [''Entities/People'', ''Comics/Concepts'', ''Comics/Concepts/Writer (Role).md'',
        ''Entities/People/John Smith.md'', ''Comics/Concepts/Artist (Role).md'',
        ''Comics/Concepts/Inker (Role).md'']
   \<and> paths_after (ensureCreatorNotesExist DEFAULT_SETTINGS env0 [zeroCredit] ''Comics/Uncanny X-Men #141.md'' vaultZero)
     = [''Entities/People'', ''Entities/People/Unsorted.md'', ''Comics/Concepts'',
        ''Comics/Concepts/Writer (Role).md'']
   \<and> paths_after (ensureCreatorNotesExist DEFAULT_SETTINGS env1 [zeroCredit] ''Comics/Uncanny X-Men #141.md''
         (vault_after (ensureCreatorNotesExist DEFAULT_SETTINGS env0 [zeroCredit] ''Comics/Uncanny X-Men #141.md'' vaultZero)))
     = [''Entities/People'', ''Entities/People/Unsorted.md'', ''Comics/Concepts'',
        ''Comics/Concepts/Writer (Role).md'', ''Entities/People/Chris Claremont.md'']
   \<and> completed (ensureCreatorNotesExist DEFAULT_SETTINGS env0 [byrneCredit] ''Comics/Uncanny X-Men #141.md'' vaultPeopleFile)
   \<and> findPersonNote DEFAULT_SETTINGS
       (vault_after (ensureCreatorNotesExist DEFAULT_SETTINGS env0 [byrneCredit] ''Comics/Uncanny X-Men #141.md'' vaultPeopleFile))
       1789 ''John Byrne'' = None
   \<and> ensureCreatorNotesExist DEFAULT_SETTINGS env1 [byrneCredit] ''Comics/Uncanny X-Men #141.md''
       (vault_after (ensureCreatorNotesExist DEFAULT_SETTINGS env0 [byrneCredit] ''Comics/Uncanny X-Men #141.md'' vaultPeopleFile))
     = Inl (FileExists,
            vault_after (ensureCreatorNotesExist DEFAULT_SETTINGS env0 [byrneCredit] ''Comics/Uncanny X-Men #141.md'' vaultPeopleFile))"
  by (intro conjI)
     (rule duplicate_kept import_stops details_not_returned same_name_creators_share_note
           zero_id_second_import_adds_note people_path_taken_by_file)+

end
